theory Spec2Isabelle
  imports Main "HOL-Library.AList" "HOL-Library.Sublist"
begin

section \<open>Protocol values (types.ts)\<close>

text \<open>
  Parsed JSON values, for the untyped parts of a frame (\<open>payload\<close>, \<open>data\<close>).
\<close>

datatype json =
    JNull
  | JBool bool
  | JNum int
  | JStr string
  | JArr "json list"
  | JObj "(string \<times> json) list"

text \<open>JavaScript truthiness of a parsed JSON value.\<close>

fun jsTruthy :: "json \<Rightarrow> bool" where
  "jsTruthy JNull = False"
| "jsTruthy (JBool b) = b"
| "jsTruthy (JNum n) = (n \<noteq> 0)"
| "jsTruthy (JStr s) = (s \<noteq> [])"
| "jsTruthy (JArr xs) = True"
| "jsTruthy (JObj kvs) = True"

text \<open>
  Truthiness of an optional string field: \<open>undefined\<close> and the empty string are falsy.
\<close>

fun truthy :: "string option \<Rightarrow> bool" where
  "truthy None = False"
| "truthy (Some s) = (s \<noteq> [])"

fun strval :: "string option \<Rightarrow> string" where
  "strval None = []"
| "strval (Some s) = s"

datatype fieldType = TString | TNumber | TBoolean | TJson

record HandlerField =
  hf_name :: string
  hf_type :: fieldType
  hf_optional :: "bool option"
  hf_description :: "string option"

record HandlerSchema =
  hs_type :: string
  hs_description :: "string option"
  hs_fields :: "HandlerField list option"

text \<open>
  A parsed inbound frame (\<open>msg: any\<close> after \<open>JSON.parse\<close>), with the fields the relay
  reads. Each field is absent (\<open>None\<close>) or carries a value of the type that types.ts
  declares for it. \<open>m_ok\<close> is present exactly when \<open>"ok" in msg\<close>.
\<close>

record frame =
  m_type :: "string option"
  m_role :: "string option"
  m_appId :: "string option"
  m_handlers :: "HandlerSchema list option"
  m_id :: "string option"
  m_ok :: "bool option"
  m_payload :: "json option"
  m_data :: "json option"
  m_error :: "string option"

section \<open>Relay state (server.ts)\<close>

text \<open>
  A socket object is identified by a number; so is the handle that \<open>setTimeout\<close> returns.
\<close>

type_synonym sock = nat
type_synonym timerId = nat

record AppConnection =
  ac_appId :: string
  ac_connectedAt :: nat
  ac_handlers :: "HandlerSchema list option"

record PendingRequest =
  cliSocket :: sock
  appSocket :: sock
  timer :: timerId

datatype role = RoleApp | RoleCli | RoleWatch

record ClientData =
  cd_role :: role
  cd_appId :: "string option"

text \<open>
  The callback of the safety timeout closes over \<open>msg.id\<close> and \<open>ws\<close> of the request that
  armed it; \<open>to_delay\<close> is the delay handed to \<open>setTimeout\<close>.
\<close>

record Timeout =
  to_id :: string
  to_ws :: sock
  to_delay :: nat

text \<open>
  The three module-level containers are JavaScript \<open>Map\<close>/\<open>Set\<close> objects, which iterate
  in insertion order: association lists and a list. \<open>wsdata\<close> is the \<open>ws.data\<close> slot of
  every socket, \<open>timers\<close> the armed timeouts. The last four fields are what the
  environment supplies (\<open>port\<close>, \<open>process.pid\<close>, \<open>Date.now()\<close>, \<open>process.uptime()\<close>).
\<close>

record server =
  apps :: "(sock \<times> AppConnection) list"
  watchers :: "sock list"
  pendingRequests :: "(string \<times> PendingRequest) list"
  wsdata :: "sock \<Rightarrow> ClientData"
  timers :: "(timerId \<times> Timeout) list"
  nextTimer :: timerId
  port :: nat
  pid :: nat
  dateNow :: nat
  uptime :: nat

section \<open>Outbound messages\<close>

record HotlineResponse =
  r_id :: string
  r_ok :: bool
  r_data :: "json option"
  r_error :: "string option"

datatype dir = Req | Res

datatype bmsg =
    BRegister string "HandlerSchema list option"
  | BDisconnect string
  | BRequest string string "json option"
  | BResponse frame

datatype wire =
    WResponse HotlineResponse
  | WFrame frame
  | WRequest string string "json option"
  | WBroadcast dir "string option" bmsg

type_synonym out = "(sock \<times> wire) list"

section \<open>Application routing\<close>

definition findAppSocket :: "(sock \<times> AppConnection) list \<Rightarrow> string option \<Rightarrow> sock option" where
  "findAppSocket entries targetAppId =
     (if length entries = 0 then None
      else if \<not> truthy targetAppId then
        (if length entries = 1 then Some (fst (hd entries)) else None)
      else
        (let matches = filter (\<lambda>(s, info). Some (ac_appId info) = targetAppId) entries
         in if length matches = 0 then None else Some (fst (hd matches))))"

text \<open>
  \<open>[...new Set(xs)]\<close>: duplicates dropped, the first occurrence keeps its place.
\<close>

fun uniq :: "'a list \<Rightarrow> 'a list \<Rightarrow> 'a list" where
  "uniq seen [] = seen"
| "uniq seen (x # xs) = (if x \<in> set seen then uniq seen xs else uniq (seen @ [x]) xs)"

definition listAppIds :: "(sock \<times> AppConnection) list \<Rightarrow> string list" where
  "listAppIds entries = uniq [] (map (\<lambda>(s, a). ac_appId a) entries)"

fun join :: "string \<Rightarrow> string list \<Rightarrow> string" where
  "join sep [] = []"
| "join sep [x] = x"
| "join sep (x # y # ys) = x @ sep @ join sep (y # ys)"

text \<open>
  The outcome of resolution as the \<open>message\<close> handler reads it off \<open>findAppSocket\<close>:
  a \<open>null\<close> result with no target and more than one application is the ambiguous
  outcome, any other \<open>null\<close> is "no target".
\<close>

datatype resolution = Resolved sock | AMBIGUOUS | NONE

definition resolveApplication :: "(sock \<times> AppConnection) list \<Rightarrow> string option \<Rightarrow> resolution" where
  "resolveApplication entries targetAppId =
     (case findAppSocket entries targetAppId of
        Some s \<Rightarrow> Resolved s
      | None \<Rightarrow>
          if \<not> truthy targetAppId \<and> length entries > 1 then AMBIGUOUS else NONE)"

section \<open>Sending\<close>

definition send :: "sock \<Rightarrow> HotlineResponse \<Rightarrow> out" where
  "send ws data = [(ws, WResponse data)]"

definition broadcast :: "server \<Rightarrow> dir \<Rightarrow> string option \<Rightarrow> bmsg \<Rightarrow> out" where
  "broadcast st d aid m =
     (if length (watchers st) = 0 then []
      else map (\<lambda>w. (w, WBroadcast d aid m)) (watchers st))"

section \<open>Timers\<close>

definition clearTimeout :: "timerId \<Rightarrow> (timerId \<times> Timeout) list \<Rightarrow> (timerId \<times> Timeout) list" where
  "clearTimeout t ts = AList.delete t ts"

section \<open>Server handlers\<close>

text \<open>
  \<open>payload?.appId\<close> of the \<open>list-handlers\<close> handler, on \<open>msg.payload ?? {}\<close>.
\<close>

fun payloadAppId :: "json option \<Rightarrow> json option" where
  "payloadAppId (Some (JObj kvs)) = map_of kvs ''appId''"
| "payloadAppId _ = None"

definition skipApp :: "json option \<Rightarrow> AppConnection \<Rightarrow> bool" where
  "skipApp targetAppId conn =
     (case targetAppId of
        None \<Rightarrow> False
      | Some t \<Rightarrow> jsTruthy t \<and> JStr (ac_appId conn) \<noteq> t)"

fun schemaFields :: "HandlerField \<Rightarrow> json" where
  "schemaFields f =
     JObj ([(''name'', JStr (hf_name f)),
            (''type'', JStr (case hf_type f of
                TString \<Rightarrow> ''string'' | TNumber \<Rightarrow> ''number''
              | TBoolean \<Rightarrow> ''boolean'' | TJson \<Rightarrow> ''json''))]
           @ (case hf_optional f of None \<Rightarrow> [] | Some b \<Rightarrow> [(''optional'', JBool b)])
           @ (case hf_description f of None \<Rightarrow> [] | Some d \<Rightarrow> [(''description'', JStr d)]))"

text \<open>The JSON form of a handler schema, as \<open>JSON.stringify\<close> writes it.\<close>

fun schemaJson :: "HandlerSchema \<Rightarrow> json" where
  "schemaJson h =
     JObj ([(''type'', JStr (hs_type h))]
           @ (case hs_description h of None \<Rightarrow> [] | Some d \<Rightarrow> [(''description'', JStr d)])
           @ (case hs_fields h of None \<Rightarrow> [] | Some fs \<Rightarrow> [(''fields'', JArr (map schemaFields fs))]))"

text \<open>
  The result of the \<open>list-handlers\<close> handler before serialisation: one entry per
  registered socket, in registration order, \<open>conn.handlers ?? []\<close> for each.
\<close>

definition listHandlers :: "server \<Rightarrow> json option \<Rightarrow> (string \<times> HandlerSchema list) list" where
  "listHandlers st payload =
     (let targetAppId = payloadAppId payload
      in map (\<lambda>(s, conn). (ac_appId conn, (case ac_handlers conn of None \<Rightarrow> [] | Some hs \<Rightarrow> hs)))
           (filter (\<lambda>(s, conn). \<not> skipApp targetAppId conn) (apps st)))"

definition handlersJson :: "(string \<times> HandlerSchema list) list \<Rightarrow> json" where
  "handlersJson res =
     JArr (map (\<lambda>(a, hs). JObj [(''appId'', JStr a), (''handlers'', JArr (map schemaJson hs))]) res)"

definition listApps :: "server \<Rightarrow> json" where
  "listApps st =
     JObj [(''port'', JNum (int (port st))),
           (''pid'', JNum (int (pid st))),
           (''uptime'', JNum (int (uptime st))),
           (''apps'', JArr (map (\<lambda>(s, a). JObj [(''appId'', JStr (ac_appId a)),
                                                  (''connectedAt'', JNum (int (ac_connectedAt a)))])
                              (apps st)))]"

text \<open>
  The \<open>serverHandlers\<close> map as the module fills it at load time: \<open>ping\<close>,
  \<open>list-apps\<close>, \<open>list-handlers\<close>. None of the three handlers throws.
\<close>

definition serverHandlers :: "string \<Rightarrow> (server \<Rightarrow> json option \<Rightarrow> json) option" where
  "serverHandlers t =
     (if t = ''ping'' then Some (\<lambda>st p. JObj [])
      else if t = ''list-apps'' then Some (\<lambda>st p. listApps st)
      else if t = ''list-handlers'' then Some (\<lambda>st p. handlersJson (listHandlers st p))
      else None)"

text \<open>
  \<open>handleServerCommand\<close>: \<open>None\<close> is the \<open>false\<close> return (no server handler of that
  name), \<open>Some out\<close> the \<open>true\<close> return with what was sent.
\<close>

definition handleServerCommand :: "sock \<Rightarrow> frame \<Rightarrow> server \<Rightarrow> out option" where
  "handleServerCommand ws msg st =
     (case serverHandlers (strval (m_type msg)) of
        None \<Rightarrow> None
      | Some handler \<Rightarrow>
          Some (send ws \<lparr>r_id = strval (m_id msg), r_ok = True,
                         r_data = Some (handler st (m_payload msg)), r_error = None\<rparr>))"

section \<open>Cleanup\<close>

text \<open>
  The loop of \<open>cleanupApp\<close> over the entries of \<open>pendingRequests\<close>; the triple carries
  the table, the armed timers and what has been sent so far.
\<close>

fun failPending :: "sock \<Rightarrow> (string \<times> PendingRequest) list
    \<Rightarrow> (string \<times> PendingRequest) list \<times> (timerId \<times> Timeout) list \<times> out
    \<Rightarrow> (string \<times> PendingRequest) list \<times> (timerId \<times> Timeout) list \<times> out" where
  "failPending ws [] acc = acc"
| "failPending ws ((rid, pending) # rest) (tbl, ts, sent) =
     (if appSocket pending = ws then
        failPending ws rest
          (AList.delete rid tbl,
           clearTimeout (timer pending) ts,
           sent @ send (cliSocket pending)
                    \<lparr>r_id = rid, r_ok = False, r_data = None, r_error = Some ''App disconnected''\<rparr>)
      else failPending ws rest (tbl, ts, sent))"

definition cleanupApp :: "sock \<Rightarrow> server \<Rightarrow> server \<times> out" where
  "cleanupApp ws st =
     (case map_of (apps st) ws of
        None \<Rightarrow> (st, [])
      | Some info \<Rightarrow>
          (let st1 = st\<lparr>apps := AList.delete ws (apps st)\<rparr>;
               sent1 = broadcast st1 Req (Some (ac_appId info)) (BDisconnect (ac_appId info));
               (tbl, ts, sent2) = failPending ws (pendingRequests st1)
                                     (pendingRequests st1, timers st1, [])
           in (st1\<lparr>pendingRequests := tbl, timers := ts\<rparr>, sent1 @ sent2)))"

section \<open>Connection handlers\<close>

text \<open>
  \<open>fetch\<close> classifies the connection from the query string: the role selector and the
  \<open>app\<close> parameter (\<open>|| undefined\<close> turns the empty string into no target).
\<close>

definition fetch :: "string option \<Rightarrow> string option \<Rightarrow> ClientData" where
  "fetch roleParam appParam =
     \<lparr>cd_role = (if roleParam = Some ''watch'' then RoleWatch else RoleCli),
      cd_appId = (if truthy appParam then appParam else None)\<rparr>"

definition openWs :: "sock \<Rightarrow> ClientData \<Rightarrow> server \<Rightarrow> server" where
  "openWs ws d st =
     (let st1 = st\<lparr>wsdata := (wsdata st)(ws := d)\<rparr>
      in if cd_role d = RoleWatch
         then st1\<lparr>watchers := (if ws \<in> set (watchers st1) then watchers st1 else watchers st1 @ [ws])\<rparr>
         else st1)"

definition isRegister :: "frame \<Rightarrow> bool" where
  "isRegister msg \<longleftrightarrow> m_type msg = Some ''register'' \<and> m_role msg = Some ''app'' \<and> truthy (m_appId msg)"

definition isResponse :: "frame \<Rightarrow> bool" where
  "isResponse msg \<longleftrightarrow> m_ok msg \<noteq> None \<and> truthy (m_id msg)"

definition isRequest :: "frame \<Rightarrow> bool" where
  "isRequest msg \<longleftrightarrow> truthy (m_id msg) \<and> truthy (m_type msg)"

definition multipleAppsError :: "server \<Rightarrow> string" where
  "multipleAppsError st =
     ''Multiple apps connected. Specify --app. Available: '' @ join '', '' (listAppIds (apps st))"

text \<open>
  The \<open>message\<close> handler. The raw frame is \<open>None\<close> when \<open>JSON.parse\<close> throws. One frame is
  handled to the end before the next event: the only \<open>await\<close> is on a server handler that
  returns at once. A frame is sent on as the parsed value (\<open>JSON.stringify(msg)\<close>).
\<close>

definition message :: "sock \<Rightarrow> frame option \<Rightarrow> server \<Rightarrow> server \<times> out" where
  "message ws raw st =
     (case raw of
        None \<Rightarrow> (st, [])
      | Some msg \<Rightarrow>
          if isRegister msg then
            (let a = strval (m_appId msg);
                 conn = \<lparr>ac_appId = a, ac_connectedAt = dateNow st, ac_handlers = m_handlers msg\<rparr>;
                 st1 = st\<lparr>wsdata := (wsdata st)(ws := \<lparr>cd_role = RoleApp, cd_appId = Some a\<rparr>),
                          apps := AList.update ws conn (apps st)\<rparr>
             in (st1, broadcast st1 Req (Some a) (BRegister a (m_handlers msg))))
          else if isResponse msg then
            (case map_of (pendingRequests st) (strval (m_id msg)) of
               None \<Rightarrow> (st, [])
             | Some pending \<Rightarrow>
                 (let ts = clearTimeout (timer pending) (timers st);
                      appInfo = map_of (apps st) (appSocket pending);
                      sent1 = broadcast st Res (map_option ac_appId appInfo) (BResponse msg);
                      sent2 = [(cliSocket pending, WFrame msg)]
                  in (st\<lparr>timers := ts,
                          pendingRequests := AList.delete (strval (m_id msg)) (pendingRequests st)\<rparr>,
                      sent1 @ sent2)))
          else if isRequest msg then
            (case handleServerCommand ws msg st of
               Some sent \<Rightarrow> (st, sent)
             | None \<Rightarrow>
                 (let targetAppId = cd_appId (wsdata st ws);
                      found = findAppSocket (apps st) targetAppId;
                      rid = strval (m_id msg)
                  in if found = None \<and> \<not> truthy targetAppId \<and> length (apps st) > 1 then
                       (st, send ws \<lparr>r_id = rid, r_ok = False, r_data = None,
                                     r_error = Some (multipleAppsError st)\<rparr>)
                     else
                       (case found of
                          None \<Rightarrow>
                            (let hint = (if truthy targetAppId
                                         then ''No app connected with id: '' @ strval targetAppId
                                         else ''No app connected'')
                             in (st, send ws \<lparr>r_id = rid, r_ok = False, r_data = None,
                                              r_error = Some hint\<rparr>))
                        | Some appSock \<Rightarrow>
                            (let t = nextTimer st;
                                 st1 = st\<lparr>timers := timers st @ [(t, \<lparr>to_id = rid, to_ws = ws, to_delay = 30000\<rparr>)],
                                          nextTimer := Suc t\<rparr>;
                                 st2 = st1\<lparr>pendingRequests :=
                                            AList.update rid \<lparr>cliSocket = ws, appSocket = appSock, timer = t\<rparr>
                                              (pendingRequests st1)\<rparr>;
                                 appInfo = map_of (apps st2) appSock;
                                 sent1 = broadcast st2 Req (map_option ac_appId appInfo)
                                           (BRequest rid (strval (m_type msg)) (m_payload msg))
                             in (st2, sent1 @ [(appSock, WRequest rid (strval (m_type msg)) (m_payload msg))])))))
          else (st, []))"

text \<open>
  The callback of the safety timeout, run when timer \<open>t\<close> expires. A cleared timer never
  runs.
\<close>

definition timeoutFired :: "timerId \<Rightarrow> server \<Rightarrow> server \<times> out" where
  "timeoutFired t st =
     (case map_of (timers st) t of
        None \<Rightarrow> (st, [])
      | Some cb \<Rightarrow>
          (st\<lparr>timers := AList.delete t (timers st),
              pendingRequests := AList.delete (to_id cb) (pendingRequests st)\<rparr>,
           send (to_ws cb) \<lparr>r_id = to_id cb, r_ok = False, r_data = None,
                            r_error = Some ''Request timed out''\<rparr>))"

definition close :: "sock \<Rightarrow> server \<Rightarrow> server \<times> out" where
  "close ws st =
     (if cd_role (wsdata st ws) = RoleApp then cleanupApp ws st
      else if cd_role (wsdata st ws) = RoleWatch then (st\<lparr>watchers := removeAll ws (watchers st)\<rparr>, [])
      else (st, []))"

section \<open>Runs of the relay\<close>

datatype event =
    Open sock "string option" "string option"
  | Message sock "frame option"
  | Close sock
  | Fire timerId

fun step :: "event \<Rightarrow> server \<Rightarrow> server \<times> out" where
  "step (Open ws r a) st = (openWs ws (fetch r a) st, [])"
| "step (Message ws raw) st = message ws raw st"
| "step (Close ws) st = close ws st"
| "step (Fire t) st = timeoutFired t st"

fun run :: "event list \<Rightarrow> server \<Rightarrow> server \<times> out" where
  "run [] st = (st, [])"
| "run (e # es) st =
     (let (st1, sent1) = step e st; (st2, sent2) = run es st1 in (st2, sent1 @ sent2))"

definition initial :: "nat \<Rightarrow> nat \<Rightarrow> server" where
  "initial p i =
     \<lparr>apps = [], watchers = [], pendingRequests = [],
      wsdata = (\<lambda>ws. \<lparr>cd_role = RoleCli, cd_appId = None\<rparr>),
      timers = [], nextTimer = 0, port = p, pid = i, dateNow = 0, uptime = 0\<rparr>"

section \<open>Application-side client (client.ts)\<close>

text \<open>
  What a handler does with a payload: it returns a value (\<open>undefined\<close> is \<open>None\<close>) or
  throws (\<open>err?.message\<close> is \<open>None\<close> when the thrown value carries no message). An
  \<open>async\<close> handler is awaited, so only its outcome matters here.
\<close>

datatype outcome = Returns "json option" | Throws "string option"

type_synonym handlerFn = "json \<Rightarrow> outcome"

record HandlerConfig =
  hc_handler :: handlerFn
  hc_fields :: "HandlerField list option"
  hc_description :: "string option"

text \<open>
  \<open>o_handlers\<close> is \<open>Object.entries(options.handlers)\<close>, \<open>o_dev\<close> the global \<open>__DEV__\<close>
  (\<open>None\<close> when it is not defined).
\<close>

record HotlineOptions =
  o_port :: "nat option"
  o_appId :: string
  o_handlers :: "(string \<times> HandlerConfig) list option"
  o_dev :: "bool option"

definition DEFAULT_PORT :: nat where
  "DEFAULT_PORT = 8675"

definition RECONNECT_CAP_MS :: nat where
  "RECONNECT_CAP_MS = 30000"

text \<open>
  The variables that \<open>createHotline\<close> closes over. \<open>c_timers\<close> holds the armed
  reconnection timeouts, each with the delay it was armed with; \<open>c_socks\<close> the
  \<open>WebSocket\<close> objects made by \<open>connect\<close> that have not closed yet.
\<close>

record client =
  options :: HotlineOptions
  handlers :: "(string \<times> handlerFn) list"
  handlerSchemas :: "HandlerSchema list"
  c_ws :: "sock option"
  reconnectDelay :: nat
  reconnectTimer :: "timerId option"
  intentionalClose :: bool
  c_timers :: "(timerId \<times> nat) list"
  c_nextTimer :: timerId
  c_socks :: "sock list"
  c_nextSock :: sock

datatype cwire =
    CRegister string "HandlerSchema list"
  | CResponse HotlineResponse

datatype action = Sent sock cwire | Closed sock

fun findIndex :: "('a \<Rightarrow> bool) \<Rightarrow> 'a list \<Rightarrow> nat option" where
  "findIndex P [] = None"
| "findIndex P (x # xs) = (if P x then Some 0 else map_option Suc (findIndex P xs))"

definition registerHandler :: "string \<Rightarrow> HandlerConfig \<Rightarrow> client \<Rightarrow> client" where
  "registerHandler t config cl =
     (let cl1 = cl\<lparr>handlers := AList.update t (hc_handler config) (handlers cl)\<rparr>;
          schema = \<lparr>hs_type = t, hs_description = hc_description config, hs_fields = hc_fields config\<rparr>
      in case findIndex (\<lambda>s. hs_type s = t) (handlerSchemas cl1) of
           Some idx \<Rightarrow> cl1\<lparr>handlerSchemas := (handlerSchemas cl1)[idx := schema]\<rparr>
         | None \<Rightarrow> cl1\<lparr>handlerSchemas := handlerSchemas cl1 @ [schema]\<rparr>)"

definition builtinPing :: handlerFn where
  "builtinPing = (\<lambda>payload. Returns (Some (JObj [])))"

definition createHotline :: "HotlineOptions \<Rightarrow> client" where
  "createHotline opts =
     (let cl0 = \<lparr>options = opts, handlers = [], handlerSchemas = [], c_ws = None,
                 reconnectDelay = 1000, reconnectTimer = None, intentionalClose = False,
                 c_timers = [], c_nextTimer = 1, c_socks = [], c_nextSock = 0\<rparr>;
          cl1 = (case o_handlers opts of
                   None \<Rightarrow> cl0
                 | Some entries \<Rightarrow> fold (\<lambda>(t, config). registerHandler t config) entries cl0)
      in cl1\<lparr>handlers := AList.update ''ping'' builtinPing (handlers cl1)\<rparr>)"

definition connect :: "client \<Rightarrow> client" where
  "connect cl =
     (if o_dev (options cl) = Some False then cl
      else
        (let s = c_nextSock cl
         in cl\<lparr>intentionalClose := False, c_ws := Some s,
                c_socks := c_socks cl @ [s], c_nextSock := Suc s\<rparr>))"

text \<open>
  \<open>ws.onopen\<close>: \<open>ws!.send\<close> goes to the socket the variable \<open>ws\<close> holds then, and throws
  when it holds \<open>null\<close>, after the delay has been reset.
\<close>

definition onopen :: "client \<Rightarrow> client \<times> action list" where
  "onopen cl =
     (let cl1 = cl\<lparr>reconnectDelay := 1000\<rparr>
      in case c_ws cl1 of
           None \<Rightarrow> (cl1, [])
         | Some w \<Rightarrow> (cl1, [Sent w (CRegister (o_appId (options cl1)) (handlerSchemas cl1))]))"

definition wsSend :: "client \<Rightarrow> HotlineResponse \<Rightarrow> action list" where
  "wsSend cl response = (case c_ws cl of None \<Rightarrow> [] | Some w \<Rightarrow> [Sent w (CResponse response)])"

definition onmessage :: "frame option \<Rightarrow> client \<Rightarrow> client \<times> action list" where
  "onmessage raw cl =
     (case raw of
        None \<Rightarrow> (cl, [])
      | Some msg \<Rightarrow>
          if \<not> truthy (m_id msg) \<or> \<not> truthy (m_type msg) then (cl, [])
          else
            (case map_of (handlers cl) (strval (m_type msg)) of
               Some handler \<Rightarrow>
                 (case handler (case m_payload msg of None \<Rightarrow> JObj [] | Some JNull \<Rightarrow> JObj [] | Some p \<Rightarrow> p) of
                    Returns result \<Rightarrow>
                      (cl, wsSend cl \<lparr>r_id = strval (m_id msg), r_ok = True,
                                      r_data = Some (case result of None \<Rightarrow> JNull | Some v \<Rightarrow> v),
                                      r_error = None\<rparr>)
                  | Throws err \<Rightarrow>
                      (cl, wsSend cl \<lparr>r_id = strval (m_id msg), r_ok = False, r_data = None,
                                      r_error = Some (case err of None \<Rightarrow> ''Handler error'' | Some m \<Rightarrow> m)\<rparr>))
             | None \<Rightarrow>
                 (cl, wsSend cl \<lparr>r_id = strval (m_id msg), r_ok = False, r_data = None,
                                 r_error = Some (''Unknown command: '' @ strval (m_type msg))\<rparr>)))"

definition scheduleReconnect :: "client \<Rightarrow> client" where
  "scheduleReconnect cl =
     (case reconnectTimer cl of
        Some t \<Rightarrow> cl
      | None \<Rightarrow>
          (let t = c_nextTimer cl
           in cl\<lparr>reconnectTimer := Some t,
                  c_timers := c_timers cl @ [(t, reconnectDelay cl)],
                  c_nextTimer := Suc t\<rparr>))"

definition onclose :: "sock \<Rightarrow> client \<Rightarrow> client" where
  "onclose s cl =
     (let cl1 = cl\<lparr>c_ws := None, c_socks := removeAll s (c_socks cl)\<rparr>
      in if \<not> intentionalClose cl1 then scheduleReconnect cl1 else cl1)"

text \<open>The callback that \<open>scheduleReconnect\<close> arms, run when timer \<open>t\<close> expires.\<close>

definition reconnectFired :: "timerId \<Rightarrow> client \<Rightarrow> client" where
  "reconnectFired t cl =
     (case map_of (c_timers cl) t of
        None \<Rightarrow> cl
      | Some d \<Rightarrow>
          connect (cl\<lparr>c_timers := AList.delete t (c_timers cl),
                      reconnectTimer := None,
                      reconnectDelay := min (reconnectDelay cl * 2) RECONNECT_CAP_MS\<rparr>))"

definition disconnect :: "client \<Rightarrow> client \<times> action list" where
  "disconnect cl =
     (let cl1 = cl\<lparr>intentionalClose := True\<rparr>;
          cl2 = (case reconnectTimer cl1 of
                   None \<Rightarrow> cl1
                 | Some t \<Rightarrow> cl1\<lparr>c_timers := AList.delete t (c_timers cl1), reconnectTimer := None\<rparr>)
      in (cl2\<lparr>c_ws := None\<rparr>, (case c_ws cl2 of None \<Rightarrow> [] | Some w \<Rightarrow> [Closed w])))"

definition handle :: "string \<Rightarrow> HandlerConfig \<Rightarrow> client \<Rightarrow> client" where
  "handle t config cl = registerHandler t config cl"

text \<open>
  What can happen to a client: the three calls of its interface, the callbacks of a
  socket that \<open>connect\<close> made and that has not closed, and the expiry of a timer.
\<close>

datatype cevent =
    Connect
  | Disconnect
  | Handle string HandlerConfig
  | OnOpen sock
  | OnMessage sock "frame option"
  | OnClose sock
  | ReconnectFire timerId

fun cstep :: "cevent \<Rightarrow> client \<Rightarrow> client \<times> action list" where
  "cstep Connect cl = (connect cl, [])"
| "cstep Disconnect cl = disconnect cl"
| "cstep (Handle t config) cl = (handle t config cl, [])"
| "cstep (OnOpen s) cl = (if s \<in> set (c_socks cl) then onopen cl else (cl, []))"
| "cstep (OnMessage s raw) cl = (if s \<in> set (c_socks cl) then onmessage raw cl else (cl, []))"
| "cstep (OnClose s) cl = (if s \<in> set (c_socks cl) then (onclose s cl, []) else (cl, []))"
| "cstep (ReconnectFire t) cl = (reconnectFired t cl, [])"

fun crun :: "cevent list \<Rightarrow> client \<Rightarrow> client" where
  "crun [] cl = cl"
| "crun (e # es) cl = crun es (fst (cstep e cl))"

text \<open>
  One failed reconnection attempt: the outstanding timer expires, \<open>connect\<close> makes a
  socket, and that socket closes without ever opening.
\<close>

definition failedAttempt :: "client \<Rightarrow> client" where
  "failedAttempt cl =
     (case reconnectTimer cl of
        None \<Rightarrow> cl
      | Some t \<Rightarrow>
          (let cl1 = reconnectFired t cl
           in case c_ws cl1 of None \<Rightarrow> cl1 | Some s \<Rightarrow> onclose s cl1))"

section \<open>Event fan-out\<close>

record Waiter =
  wt_sock :: sock
  wt_event :: string
  wt_appId :: "string option"

record EventFrame =
  ev_event :: string
  ev_data :: "json option"

datatype eaction =
    Deliver sock string string "json option"
  | CloseSession sock

record sessions =
  observers :: "sock list"
  waiters :: "Waiter list"

text \<open>
  Modelled from the spec: the waiter filter of the relay's event branch. The server
  sources at hand predate the event system (their \<open>message\<close> handler has no event branch
  and \<open>fetch\<close> knows no waiter role); only the \<open>wait\<close> caller of the command line is
  present. A waiter matches an event when the name is the one it blocks on and, if it
  specified an application id, the originating application has that id.
\<close>

definition waiterMatches :: "string \<Rightarrow> string \<Rightarrow> Waiter \<Rightarrow> bool" where
  "waiterMatches aid name w \<longleftrightarrow>
     wt_event w = name \<and> (case wt_appId w of None \<Rightarrow> True | Some a \<Rightarrow> a = aid)"

text \<open>
  Modelled from the spec: the event branch of the relay's \<open>message\<close> handler, which the
  server sources at hand do not have. An inbound event frame from the application
  registered as \<open>aid\<close> is delivered to every connected observer, tagged with \<open>aid\<close>, and
  to every waiter it matches; each such waiter session is closed after the delivery and
  leaves the waiter set. Nothing is kept for later waiters.
\<close>

definition eventFanOut :: "string \<Rightarrow> EventFrame \<Rightarrow> sessions \<Rightarrow> sessions \<times> eaction list" where
  "eventFanOut aid ev ss =
     (let hit = filter (waiterMatches aid (ev_event ev)) (waiters ss);
          rest = filter (\<lambda>w. \<not> waiterMatches aid (ev_event ev) w) (waiters ss)
      in (ss\<lparr>waiters := rest\<rparr>,
          map (\<lambda>ob. Deliver ob aid (ev_event ev) (ev_data ev)) (observers ss)
          @ concat (map (\<lambda>w. [Deliver (wt_sock w) aid (ev_event ev) (ev_data ev),
                               CloseSession (wt_sock w)]) hit)))"

text \<open>How many frames a run of actions delivers to one session.\<close>

fun delivered :: "sock \<Rightarrow> eaction list \<Rightarrow> nat" where
  "delivered s [] = 0"
| "delivered s (Deliver t aid name d # acts) = (if t = s then 1 else 0) + delivered s acts"
| "delivered s (CloseSession t # acts) = delivered s acts"

section \<open>Consistency of the relay's tables\<close>

text \<open>
  What every state that the relay can reach satisfies: the keys of the correlation table
  are distinct (it is a \<open>Map\<close>) and never the empty string (\<open>msg.id\<close> was truthy when
  the entry was stored), no two entries hold the same timer handle, and every handle in
  use is older than the next one that \<open>setTimeout\<close> will return.
\<close>

definition consistent :: "server \<Rightarrow> bool" where
  "consistent st \<longleftrightarrow>
     distinct (map fst (pendingRequests st)) \<and>
     [] \<notin> set (map fst (pendingRequests st)) \<and>
     distinct (map (\<lambda>(i, p). timer p) (pendingRequests st)) \<and>
     list_all (\<lambda>(i, p). timer p < nextTimer st) (pendingRequests st) \<and>
     distinct (map fst (timers st)) \<and>
     list_all (\<lambda>(t, cb). t < nextTimer st) (timers st)"

text \<open>
  An event is quiet for request \<open>rid\<close>, routed to application socket \<open>app\<close> under timer
  \<open>t\<close>, when it is none of the three things that end the wait: a frame with an \<open>ok\<close>
  field carrying that id, the close of that application's socket, the expiry of that
  timer.
\<close>

fun quiet :: "string \<Rightarrow> sock \<Rightarrow> timerId \<Rightarrow> event \<Rightarrow> bool" where
  "quiet rid app t (Open ws r a) = True"
| "quiet rid app t (Message ws None) = True"
| "quiet rid app t (Message ws (Some msg)) = (\<not> (m_ok msg \<noteq> None \<and> m_id msg = Some rid))"
| "quiet rid app t (Close ws) = (ws \<noteq> app)"
| "quiet rid app t (Fire u) = (u \<noteq> t)"

text \<open>
  An event does not reuse the id \<open>rid\<close> when it is not a frame that carries \<open>rid\<close> and has
  no \<open>ok\<close> field: only such a frame can store a correlation under \<open>rid\<close>.
\<close>

fun noReuse :: "string \<Rightarrow> event \<Rightarrow> bool" where
  "noReuse rid (Message ws (Some msg)) = (\<not> (m_ok msg = None \<and> m_id msg = Some rid))"
| "noReuse rid e = True"

text \<open>
  Request \<open>rid\<close> of client \<open>cli\<close> is still waiting under timer \<open>t\<close>: the timer is armed
  with the callback of that request, and any table entry that holds the handle \<open>t\<close> is
  the entry of \<open>rid\<close>, routed to \<open>app\<close>.
\<close>

definition waiting :: "string \<Rightarrow> sock \<Rightarrow> sock \<Rightarrow> timerId \<Rightarrow> server \<Rightarrow> bool" where
  "waiting rid cli app t st \<longleftrightarrow>
     map_of (timers st) t = Some \<lparr>to_id = rid, to_ws = cli, to_delay = 30000\<rparr> \<and>
     t < nextTimer st \<and>
     list_all (\<lambda>(i, p). timer p = t \<longrightarrow> i = rid \<and> appSocket p = app) (pendingRequests st)"

section \<open>Runs of the client and of the event fan-out\<close>

text \<open>
  The variable \<open>reconnectTimer\<close> and the armed timeouts agree: no timeout is armed when
  the variable is \<open>null\<close>, and exactly the one it holds otherwise.
\<close>

definition oneTimer :: "client \<Rightarrow> bool" where
  "oneTimer cl \<longleftrightarrow>
     map fst (c_timers cl) = (case reconnectTimer cl of None \<Rightarrow> [] | Some t \<Rightarrow> [t])"

fun namesPing :: "cevent \<Rightarrow> bool" where
  "namesPing (Handle t config) = (t = ''ping'')"
| "namesPing _ = False"

fun attempts :: "nat \<Rightarrow> client \<Rightarrow> client" where
  "attempts 0 cl = cl"
| "attempts (Suc n) cl = failedAttempt (attempts n cl)"

fun fanOutAll :: "(string \<times> EventFrame) list \<Rightarrow> sessions \<Rightarrow> sessions \<times> eaction list" where
  "fanOutAll [] ss = (ss, [])"
| "fanOutAll ((aid, ev) # evs) ss =
     (let (ss1, acts1) = eventFanOut aid ev ss; (ss2, acts2) = fanOutAll evs ss1
      in (ss2, acts1 @ acts2))"

section \<open>Example values\<close>

definition appA :: AppConnection where
  "appA = \<lparr>ac_appId = ''com.a'', ac_connectedAt = 0, ac_handlers = None\<rparr>"

definition appB :: AppConnection where
  "appB = \<lparr>ac_appId = ''com.b'', ac_connectedAt = 0, ac_handlers = None\<rparr>"

definition noFrame :: frame where
  "noFrame = \<lparr>m_type = None, m_role = None, m_appId = None, m_handlers = None, m_id = None,
              m_ok = None, m_payload = None, m_data = None, m_error = None\<rparr>"

text \<open>
  Two applications on sockets 1 and 2, an observer on socket 9, clients on sockets 3
  and 4 that target \<open>com.a\<close> and \<open>com.b\<close>, every other socket a client with no target;
  requests \<open>r1\<close> and \<open>r2\<close> are in flight.
\<close>

definition exData :: "sock \<Rightarrow> ClientData" where
  "exData ws =
     (if ws = 1 then \<lparr>cd_role = RoleApp, cd_appId = Some ''com.a''\<rparr>
      else if ws = 2 then \<lparr>cd_role = RoleApp, cd_appId = Some ''com.b''\<rparr>
      else if ws = 3 then \<lparr>cd_role = RoleCli, cd_appId = Some ''com.a''\<rparr>
      else if ws = 4 then \<lparr>cd_role = RoleCli, cd_appId = Some ''com.b''\<rparr>
      else if ws = 9 then \<lparr>cd_role = RoleWatch, cd_appId = None\<rparr>
      else \<lparr>cd_role = RoleCli, cd_appId = None\<rparr>)"

definition exState :: server where
  "exState =
     \<lparr>apps = [(1, appA), (2, appB)],
      watchers = [9],
      pendingRequests = [(''r1'', \<lparr>cliSocket = 3, appSocket = 1, timer = 0\<rparr>),
                         (''r2'', \<lparr>cliSocket = 4, appSocket = 2, timer = 1\<rparr>)],
      wsdata = exData,
      timers = [(0, \<lparr>to_id = ''r1'', to_ws = 3, to_delay = 30000\<rparr>),
                (1, \<lparr>to_id = ''r2'', to_ws = 4, to_delay = 30000\<rparr>)],
      nextTimer = 2, port = 8675, pid = 100, dateNow = 50, uptime = 7\<rparr>"

definition exReply :: frame where
  "exReply = noFrame\<lparr>m_id := Some ''r1'', m_ok := Some True, m_data := Some (JStr ''done'')\<rparr>"

definition exUnsolicited :: frame where
  "exUnsolicited = noFrame\<lparr>m_id := Some ''r7'', m_ok := Some True\<rparr>"

definition exRegisterOk :: frame where
  "exRegisterOk = noFrame\<lparr>m_type := Some ''register'', m_role := Some ''app'',
                            m_appId := Some ''com.c'', m_id := Some ''r1'', m_ok := Some True\<rparr>"

definition exPing :: frame where
  "exPing = noFrame\<lparr>m_type := Some ''ping'', m_id := Some ''r5''\<rparr>"

definition exRequest :: frame where
  "exRequest = noFrame\<lparr>m_type := Some ''get-state'', m_id := Some ''r5'',
                         m_payload := Some (JObj [(''key'', JStr ''user'')])\<rparr>"

definition exAgain :: frame where
  "exAgain = noFrame\<lparr>m_type := Some ''navigate'', m_id := Some ''r5''\<rparr>"

definition exLate :: frame where
  "exLate = noFrame\<lparr>m_id := Some ''r5'', m_ok := Some True\<rparr>"

definition exSchema :: HandlerSchema where
  "exSchema = \<lparr>hs_type = ''get-state'', hs_description = Some ''Get state'',
               hs_fields = Some [\<lparr>hf_name = ''key'', hf_type = TString, hf_optional = None,
                                  hf_description = None\<rparr>]\<rparr>"

definition exRegister :: frame where
  "exRegister = noFrame\<lparr>m_type := Some ''register'', m_role := Some ''app'',
                          m_appId := Some ''com.c'', m_handlers := Some [exSchema]\<rparr>"

definition exListHandlers :: frame where
  "exListHandlers = noFrame\<lparr>m_type := Some ''list-handlers'', m_id := Some ''r6''\<rparr>"

definition exQuiet :: "event list" where
  "exQuiet = [Message 1 (Some exReply), Fire 1, Open 7 None None, Message 4 (Some exAgain)]"

definition exAfter :: "event list" where
  "exAfter = [Close 2, Fire 3, Message 6 (Some exRegister), Message 7 (Some exUnsolicited)]"

definition exUserPing :: HandlerConfig where
  "exUserPing = \<lparr>hc_handler = (\<lambda>payload. Throws (Some ''user ping'')), hc_fields = None,
                  hc_description = Some ''mine''\<rparr>"

definition exGetState :: HandlerConfig where
  "exGetState = \<lparr>hc_handler = (\<lambda>payload. Returns (Some payload)), hc_fields = None,
                  hc_description = None\<rparr>"

definition exOptions :: HotlineOptions where
  "exOptions = \<lparr>o_port = None, o_appId = ''com.a'',
                 o_handlers = Some [(''ping'', exUserPing), (''get-state'', exGetState)],
                 o_dev = None\<rparr>"

definition exSessions :: sessions where
  "exSessions =
     \<lparr>observers = [9, 10],
      waiters = [\<lparr>wt_sock = 11, wt_event = ''navigation'', wt_appId = None\<rparr>,
                 \<lparr>wt_sock = 12, wt_event = ''navigation'', wt_appId = Some ''com.b''\<rparr>,
                 \<lparr>wt_sock = 13, wt_event = ''error'', wt_appId = None\<rparr>]\<rparr>"

definition exEvent :: EventFrame where
  "exEvent = \<lparr>ev_event = ''navigation'', ev_data = Some (JObj [(''screen'', JStr ''Home'')])\<rparr>"

section \<open>Properties\<close>

subsection \<open>Evaluation of the examples\<close>

lemmas ex_defs = exState_def exData_def appA_def appB_def noFrame_def exReply_def exUnsolicited_def
  exRegisterOk_def exPing_def exRequest_def exAgain_def exLate_def exSchema_def exRegister_def
  exListHandlers_def

lemmas shape_defs = isRegister_def isResponse_def isRequest_def

lemmas cl_defs = exOptions_def exUserPing_def exGetState_def createHotline_def registerHandler_def
  connect_def onopen_def Let_def

subsection \<open>Application resolution\<close>

lemma find_filter_hd:
  "List.find P xs = (if length (filter P xs) = 0 then None else Some (hd (filter P xs)))"
  by (induction xs) auto

text \<open>
  C1. Application resolution over the registry: with no application registered the
  outcome is no target; with the target omitted and exactly one application registered it
  is that application; with the target omitted and more than one registered it is the
  ambiguous outcome; with a target given it is the first application in registration order
  whose appId equals it, or no target when none does. A target is omitted when it is
  \<open>undefined\<close> or the empty string, which is what \<open>fetch\<close> turns into \<open>undefined\<close>.
\<close>

theorem resolveApplication_cases:
  "(entries = [] \<longrightarrow> resolveApplication entries t = NONE) \<and>
   (\<not> truthy t \<and> entries = [(s, c)] \<longrightarrow> resolveApplication entries t = Resolved s) \<and>
   (\<not> truthy t \<and> length entries > 1 \<longrightarrow> resolveApplication entries t = AMBIGUOUS) \<and>
   (t = Some a \<and> a \<noteq> [] \<longrightarrow> resolveApplication entries t =
      (case List.find (\<lambda>(s, info). ac_appId info = a) entries of
         Some (s, info) \<Rightarrow> Resolved s
       | None \<Rightarrow> NONE))"
proof (intro conjI impI)
  assume "entries = []"
  then show "resolveApplication entries t = NONE"
    by (simp add: resolveApplication_def findAppSocket_def)
next
  assume "\<not> truthy t \<and> entries = [(s, c)]"
  then show "resolveApplication entries t = Resolved s"
    by (simp add: resolveApplication_def findAppSocket_def)
next
  assume "\<not> truthy t \<and> length entries > 1"
  then show "resolveApplication entries t = AMBIGUOUS"
    by (auto simp: resolveApplication_def findAppSocket_def)
next
  assume a: "t = Some a \<and> a \<noteq> []"
  have eq: "(\<lambda>(s, info). Some (ac_appId info) = Some a) = (\<lambda>(s::sock, info). ac_appId info = a)"
    by auto
  show "resolveApplication entries t =
      (case List.find (\<lambda>(s, info). ac_appId info = a) entries of
         Some (s, info) \<Rightarrow> Resolved s
       | None \<Rightarrow> NONE)"
    using a
    by (cases entries)
       (auto simp: resolveApplication_def findAppSocket_def find_filter_hd eq Let_def
             split: prod.splits)
qed

theorem resolveApplication_cases_witness:
  "resolveApplication [] None = NONE \<and>
   resolveApplication [(1, appA)] None = Resolved 1 \<and>
   resolveApplication [(1, appA), (2, appB), (3, appB)] None = AMBIGUOUS \<and>
   resolveApplication [(1, appA), (2, appB), (3, appB)] (Some ''com.b'') = Resolved 2 \<and>
   resolveApplication [(1, appA), (2, appB), (3, appB)] (Some ''com.c'') = NONE"
  using resolveApplication_cases [of "[]" None]
        resolveApplication_cases [of "[(1, appA)]" None 1 appA]
        resolveApplication_cases [of "[(1, appA), (2, appB), (3, appB)]" None]
        resolveApplication_cases [of "[(1, appA), (2, appB), (3, appB)]" "Some ''com.b''" _ _ "''com.b''"]
        resolveApplication_cases [of "[(1, appA), (2, appB), (3, appB)]" "Some ''com.c''" _ _ "''com.c''"]
  by (simp add: appA_def appB_def)

subsection \<open>The branches of the message handler\<close>

lemma send_simp: "send ws d = [(ws, WResponse d)]" by (simp add: send_def)

lemma message_response_hit:
  assumes "\<not> isRegister msg" "isResponse msg"
      and "map_of (pendingRequests st) (strval (m_id msg)) = Some pending"
  shows "message ws (Some msg) st =
           (st\<lparr>timers := clearTimeout (timer pending) (timers st),
               pendingRequests := AList.delete (strval (m_id msg)) (pendingRequests st)\<rparr>,
            broadcast st Res (map_option ac_appId (map_of (apps st) (appSocket pending))) (BResponse msg)
            @ [(cliSocket pending, WFrame msg)])"
  using assms by (simp add: message_def Let_def)

lemma message_response_miss:
  assumes "\<not> isRegister msg" "isResponse msg"
      and "map_of (pendingRequests st) (strval (m_id msg)) = None"
  shows "message ws (Some msg) st = (st, [])"
  using assms by (simp add: message_def Let_def)

lemma message_register:
  assumes "isRegister reg"
  shows "message ws (Some reg) st =
     (st\<lparr>wsdata := (wsdata st)(ws := \<lparr>cd_role = RoleApp, cd_appId = Some (strval (m_appId reg))\<rparr>),
         apps := AList.update ws \<lparr>ac_appId = strval (m_appId reg), ac_connectedAt = dateNow st,
                                  ac_handlers = m_handlers reg\<rparr> (apps st)\<rparr>,
      broadcast st Req (Some (strval (m_appId reg))) (BRegister (strval (m_appId reg)) (m_handlers reg)))"
  using assms by (simp add: message_def Let_def broadcast_def)


lemma message_forward:
  assumes "isRequest msg" "\<not> isRegister msg" "\<not> isResponse msg"
      and "serverHandlers (strval (m_type msg)) = None"
      and "findAppSocket (apps st) (cd_appId (wsdata st ws)) = Some app"
  shows "message ws (Some msg) st =
     (st\<lparr>timers := timers st @ [(nextTimer st, \<lparr>to_id = strval (m_id msg), to_ws = ws, to_delay = 30000\<rparr>)],
         nextTimer := Suc (nextTimer st),
         pendingRequests := AList.update (strval (m_id msg))
            \<lparr>cliSocket = ws, appSocket = app, timer = nextTimer st\<rparr> (pendingRequests st)\<rparr>,
      broadcast st Req (map_option ac_appId (map_of (apps st) app))
         (BRequest (strval (m_id msg)) (strval (m_type msg)) (m_payload msg))
      @ [(app, WRequest (strval (m_id msg)) (strval (m_type msg)) (m_payload msg))])"
  using assms by (simp add: message_def handleServerCommand_def Let_def broadcast_def)

text \<open>
  The request branch of \<open>message\<close> by the outcome of resolution: this is where the three
  outcomes of \<open>resolveApplication\<close> are read off \<open>findAppSocket\<close>.
\<close>

lemma findAppSocket_resolution:
  "findAppSocket entries t = (case resolveApplication entries t of Resolved s \<Rightarrow> Some s | _ \<Rightarrow> None)"
  by (simp add: resolveApplication_def split: option.splits)

lemma message_by_resolution:
  assumes "isRequest msg" "\<not> isRegister msg" "\<not> isResponse msg"
      and "serverHandlers (strval (m_type msg)) = None"
  shows "message ws (Some msg) st =
     (case resolveApplication (apps st) (cd_appId (wsdata st ws)) of
        AMBIGUOUS \<Rightarrow>
          (st, [(ws, WResponse \<lparr>r_id = strval (m_id msg), r_ok = False, r_data = None,
                                 r_error = Some (multipleAppsError st)\<rparr>)])
      | NONE \<Rightarrow>
          (st, [(ws, WResponse \<lparr>r_id = strval (m_id msg), r_ok = False, r_data = None,
                   r_error = Some (if truthy (cd_appId (wsdata st ws))
                                   then ''No app connected with id: '' @ strval (cd_appId (wsdata st ws))
                                   else ''No app connected'')\<rparr>)])
      | Resolved app \<Rightarrow>
          (st\<lparr>timers := timers st @ [(nextTimer st, \<lparr>to_id = strval (m_id msg), to_ws = ws, to_delay = 30000\<rparr>)],
              nextTimer := Suc (nextTimer st),
              pendingRequests := AList.update (strval (m_id msg))
                 \<lparr>cliSocket = ws, appSocket = app, timer = nextTimer st\<rparr> (pendingRequests st)\<rparr>,
           broadcast st Req (map_option ac_appId (map_of (apps st) app))
              (BRequest (strval (m_id msg)) (strval (m_type msg)) (m_payload msg))
           @ [(app, WRequest (strval (m_id msg)) (strval (m_type msg)) (m_payload msg))]))"
proof (cases "findAppSocket (apps st) (cd_appId (wsdata st ws))")
  case None
  with assms show ?thesis
    by (simp add: message_def handleServerCommand_def resolveApplication_def Let_def send_def)
next
  case (Some app)
  with message_forward[OF assms Some] show ?thesis
    by (simp add: resolveApplication_def)
qed

lemma timeoutFired_armed:
  assumes "map_of (timers st) t = Some cb"
  shows "timeoutFired t st =
     (st\<lparr>timers := AList.delete t (timers st),
         pendingRequests := AList.delete (to_id cb) (pendingRequests st)\<rparr>,
      [(to_ws cb, WResponse \<lparr>r_id = to_id cb, r_ok = False, r_data = None,
                             r_error = Some ''Request timed out''\<rparr>)])"
  using assms by (simp add: timeoutFired_def send_def)

lemma timeoutFired_cleared:
  assumes "map_of (timers st) t = None"
  shows "timeoutFired t st = (st, [])"
  using assms by (simp add: timeoutFired_def)

subsection \<open>Association lists\<close>

lemma delete_eq_filter: "AList.delete k al = filter (\<lambda>(k', v). k' \<noteq> k) al"
  by (induction al) (auto simp: AList.delete_eq)

lemma map_of_delete_same: "map_of (AList.delete k al) k = None"
  by (simp add: delete_conv')

lemma delete_key_notin: "k \<notin> fst ` set (AList.delete k al)"
  by (auto simp: delete_eq_filter)

lemma map_of_delete_other: "k \<noteq> t \<Longrightarrow> map_of (AList.delete k al) t = map_of al t"
  by (simp add: delete_conv')

lemma map_of_append_left: "map_of xs k = Some v \<Longrightarrow> map_of (xs @ ys) k = Some v"
  by (simp add: map_add_Some_iff)

lemma distinct_map_eq:
  "distinct (map f xs) \<Longrightarrow> x \<in> set xs \<Longrightarrow> y \<in> set xs \<Longrightarrow> f x = f y \<Longrightarrow> x = y"
  by (meson distinct_map inj_on_def)

lemma map_of_filter_notin:
  "k \<notin> T \<Longrightarrow> map_of (filter (\<lambda>(t, cb). t \<notin> T) ts) k = map_of ts k"
  by (induction ts) auto

lemma filter_keys_distinct:
  assumes "distinct (map fst tbl)"
  shows "filter (\<lambda>(i, p). i \<notin> fst ` {e \<in> set tbl. P (snd e)}) tbl = filter (\<lambda>(i, p). \<not> P p) tbl"
proof (rule filter_cong[OF refl])
  fix x assume x: "x \<in> set tbl"
  obtain i p where ip: "x = (i, p)" by (cases x)
  have "i \<in> fst ` {e \<in> set tbl. P (snd e)} \<longleftrightarrow> P p"
  proof
    assume "i \<in> fst ` {e \<in> set tbl. P (snd e)}"
    then obtain e where e: "e \<in> set tbl" "P (snd e)" "fst e = i" by auto
    with x ip assms have "e = x" using distinct_map_eq[of fst tbl e x] by simp
    with e ip show "P p" by simp
  next
    assume "P p" with x ip show "i \<in> fst ` {e \<in> set tbl. P (snd e)}" by force
  qed
  then show "(case x of (i, p) \<Rightarrow> i \<notin> fst ` {e \<in> set tbl. P (snd e)}) = (case x of (i, p) \<Rightarrow> \<not> P p)"
    using ip by simp
qed

lemma update_set_subset: "set (AList.update k v al) \<subseteq> insert (k, v) (set al)"
  by (induction al) auto

lemma distinct_timer_update:
  assumes "distinct (map (\<lambda>(i, p). timer p) al)" "\<forall>(i, p) \<in> set al. timer p \<noteq> timer v"
  shows "distinct (map (\<lambda>(i, p). timer p) (AList.update k v al))"
  using assms
proof (induction al)
  case Nil
  then show ?case by simp
next
  case (Cons e al)
  have sub: "set (AList.update k v al) \<subseteq> insert (k, v) (set al)" by (rule update_set_subset)
  show ?case
  proof (cases "fst e = k")
    case True
    with Cons.prems show ?thesis by (cases e) (auto simp: image_iff)
  next
    case False
    have "(\<lambda>(i, p). timer p) e \<notin> (\<lambda>(i, p). timer p) ` set (AList.update k v al)"
    proof
      assume "(\<lambda>(i, p). timer p) e \<in> (\<lambda>(i, p). timer p) ` set (AList.update k v al)"
      then obtain x where x: "x \<in> set (AList.update k v al)" "(\<lambda>(i, p). timer p) e = (\<lambda>(i, p). timer p) x"
        by auto
      from x(1) sub have "x = (k, v) \<or> x \<in> set al" by auto
      then show False
      proof
        assume "x = (k, v)" with x(2) Cons.prems(2) show False by (cases e) auto
      next
        assume "x \<in> set al" with x(2) Cons.prems(1) show False by (cases e) (auto simp: image_iff)
      qed
    qed
    with False Cons show ?thesis by (cases e) auto
  qed
qed

lemma truthy_strval: "truthy x \<Longrightarrow> strval x \<noteq> []"
  by (cases x) auto

subsection \<open>Cleanup after an application\<close>

lemma failPending_char:
  "failPending ws xs (tbl, ts, sent) =
     (filter (\<lambda>(i, p). i \<notin> fst ` {e \<in> set xs. appSocket (snd e) = ws}) tbl,
      filter (\<lambda>(t, cb). t \<notin> (\<lambda>e. timer (snd e)) ` {e \<in> set xs. appSocket (snd e) = ws}) ts,
      sent @ map (\<lambda>(i, p). (cliSocket p, WResponse \<lparr>r_id = i, r_ok = False, r_data = None,
                                 r_error = Some ''App disconnected''\<rparr>))
               (filter (\<lambda>(i, p). appSocket p = ws) xs))"
proof (induction xs arbitrary: tbl ts sent)
  case Nil
  then show ?case by simp
next
  case (Cons e xs)
  obtain rid pending where e: "e = (rid, pending)" by (cases e)
  show ?case
  proof (cases "appSocket pending = ws")
    case True
    have A: "{x \<in> set (e # xs). appSocket (snd x) = ws} = insert e {x \<in> set xs. appSocket (snd x) = ws}"
      using True e by auto
    show ?thesis
      unfolding A using True e
      by (simp add: Cons.IH clearTimeout_def delete_eq_filter send_def case_prod_beta)
  next
    case False
    have A: "{x \<in> set (e # xs). appSocket (snd x) = ws} = {x \<in> set xs. appSocket (snd x) = ws}"
      using False e by auto
    show ?thesis
      unfolding A using False e by (simp add: Cons.IH)
  qed
qed

lemma cleanupApp_char:
  assumes "map_of (apps st) ws = Some info"
  shows "cleanupApp ws st =
     (st\<lparr>apps := AList.delete ws (apps st),
         pendingRequests := filter (\<lambda>(i, p). i \<notin> fst ` {e \<in> set (pendingRequests st). appSocket (snd e) = ws}) (pendingRequests st),
         timers := filter (\<lambda>(t, cb). t \<notin> (\<lambda>e. timer (snd e)) ` {e \<in> set (pendingRequests st). appSocket (snd e) = ws}) (timers st)\<rparr>,
      broadcast st Req (Some (ac_appId info)) (BDisconnect (ac_appId info))
      @ map (\<lambda>(i, p). (cliSocket p, WResponse \<lparr>r_id = i, r_ok = False, r_data = None,
                                 r_error = Some ''App disconnected''\<rparr>))
               (filter (\<lambda>(i, p). appSocket p = ws) (pendingRequests st)))"
  using assms by (simp add: cleanupApp_def Let_def failPending_char broadcast_def)

subsection \<open>Every step keeps the tables consistent\<close>

lemma consistent_filter:
  assumes "consistent st"
      and "pendingRequests st' = filter P (pendingRequests st)"
      and "timers st' = filter Q (timers st)"
      and "nextTimer st' = nextTimer st"
  shows "consistent st'"
  using assms
  by (auto simp: consistent_def distinct_map_filter list_all_iff)

lemma consistent_same:
  assumes "consistent st"
      and "pendingRequests st' = pendingRequests st"
      and "timers st' = timers st"
      and "nextTimer st' = nextTimer st"
  shows "consistent st'"
  using assms by (simp add: consistent_def)

lemma consistent_forward:
  assumes c: "consistent st" and rid: "rid \<noteq> []"
  shows "consistent (st\<lparr>timers := timers st @ [(nextTimer st, cb)], nextTimer := Suc (nextTimer st),
                       pendingRequests := AList.update rid \<lparr>cliSocket = ws, appSocket = a, timer = nextTimer st\<rparr>
                                             (pendingRequests st)\<rparr>)"
proof -
  let ?v = "\<lparr>cliSocket = ws, appSocket = a, timer = nextTimer st\<rparr>"
  have lt: "\<forall>(i, p) \<in> set (pendingRequests st). timer p < nextTimer st"
    and ltt: "\<forall>(t, cb) \<in> set (timers st). t < nextTimer st"
    using c by (auto simp: consistent_def list_all_iff)
  have 1: "distinct (map fst (AList.update rid ?v (pendingRequests st)))"
    using c by (simp add: consistent_def distinct_update)
  have 2: "[] \<notin> set (map fst (AList.update rid ?v (pendingRequests st)))"
    using c rid by (auto simp: consistent_def update_keys)
  have 3: "distinct (map (\<lambda>(i, p). timer p) (AList.update rid ?v (pendingRequests st)))"
    using c lt by (intro distinct_timer_update) (auto simp: consistent_def)
  have 4: "list_all (\<lambda>(i, p). timer p < Suc (nextTimer st)) (AList.update rid ?v (pendingRequests st))"
    using lt update_set_subset[of rid ?v "pendingRequests st"] by (fastforce simp: list_all_iff)
  have 5: "distinct (map fst (timers st @ [(nextTimer st, cb)]))"
    using c ltt by (fastforce simp: consistent_def)
  have 6: "list_all (\<lambda>(t, cb). t < Suc (nextTimer st)) (timers st @ [(nextTimer st, cb)])"
    using ltt by (fastforce simp: list_all_iff)
  show ?thesis using 1 2 3 4 5 6 by (simp add: consistent_def)
qed

lemma consistent_message: "consistent st \<Longrightarrow> consistent (fst (message ws raw st))"
proof (cases raw)
  case None
  assume "consistent st"
  with None show ?thesis by (simp add: message_def)
next
  case (Some msg)
  assume c: "consistent st"
  consider (reg) "isRegister msg"
    | (res) "\<not> isRegister msg" "isResponse msg"
    | (req) "\<not> isRegister msg" "\<not> isResponse msg" "isRequest msg"
    | (other) "\<not> isRegister msg" "\<not> isResponse msg" "\<not> isRequest msg"
    by blast
  then show ?thesis
  proof cases
    case reg
    show ?thesis
      by (rule consistent_same[OF c]) (simp_all add: message_def Let_def Some reg)
  next
    case res
    show ?thesis
    proof (cases "map_of (pendingRequests st) (strval (m_id msg))")
      case None
      with Some res c show ?thesis by (simp add: message_response_miss)
    next
      case (Some pending)
      show ?thesis
        unfolding \<open>raw = Some msg\<close> message_response_hit[OF res Some]
        by (rule consistent_filter[OF c, where P = "\<lambda>(k', v). k' \<noteq> strval (m_id msg)"
                                       and Q = "\<lambda>(k', v). k' \<noteq> timer pending"])
           (simp_all add: clearTimeout_def delete_eq_filter)
    qed
  next
    case req
    show ?thesis
    proof (cases "handleServerCommand ws msg st")
      case (Some sent)
      with \<open>raw = Some msg\<close> req c show ?thesis by (simp add: message_def)
    next
      case None
      have rid: "strval (m_id msg) \<noteq> []" using req(3) by (simp add: isRequest_def truthy_strval)
      show ?thesis
      proof (cases "findAppSocket (apps st) (cd_appId (wsdata st ws))")
        case N: None
        show ?thesis
          by (rule consistent_same[OF c])
             (simp_all add: message_def Let_def \<open>raw = Some msg\<close> req None N)
      next
        case S: (Some appSock)
        have "fst (message ws raw st) =
              st\<lparr>timers := timers st @ [(nextTimer st, \<lparr>to_id = strval (m_id msg), to_ws = ws, to_delay = 30000\<rparr>)],
                 nextTimer := Suc (nextTimer st),
                 pendingRequests := AList.update (strval (m_id msg))
                     \<lparr>cliSocket = ws, appSocket = appSock, timer = nextTimer st\<rparr> (pendingRequests st)\<rparr>"
          by (simp add: message_def Let_def \<open>raw = Some msg\<close> req None S)
        then show ?thesis using consistent_forward[OF c rid] by simp
      qed
    qed
  next
    case other
    with Some c show ?thesis by (simp add: message_def)
  qed
qed

lemma consistent_close: "consistent st \<Longrightarrow> consistent (fst (close ws st))"
proof -
  assume c: "consistent st"
  show ?thesis
  proof (cases "cd_role (wsdata st ws) = RoleApp")
    case False
    show ?thesis
      by (rule consistent_same[OF c]) (simp_all add: close_def False)
  next
    case True
    show ?thesis
    proof (cases "map_of (apps st) ws")
      case None
      then show ?thesis using c True by (simp add: close_def cleanupApp_def)
    next
      case (Some info)
      show ?thesis
        unfolding close_def cleanupApp_char[OF Some]
        by (simp add: True, rule consistent_filter[OF c]) simp_all
    qed
  qed
qed

lemma consistent_timeoutFired: "consistent st \<Longrightarrow> consistent (fst (timeoutFired t st))"
proof (cases "map_of (timers st) t")
  case None
  assume "consistent st"
  with None show ?thesis by (simp add: timeoutFired_def)
next
  case (Some cb)
  assume c: "consistent st"
  show ?thesis
    by (rule consistent_filter[OF c, where P = "\<lambda>(k', v). k' \<noteq> to_id cb"
                                   and Q = "\<lambda>(k', v). k' \<noteq> t"])
       (simp_all add: timeoutFired_def Some delete_eq_filter)
qed

lemma consistent_step: "consistent st \<Longrightarrow> consistent (fst (step e st))"
proof (cases e)
  case (Open ws r a)
  assume c: "consistent st"
  show ?thesis
    by (rule consistent_same[OF c]) (simp_all add: Open openWs_def Let_def)
qed (simp_all add: consistent_message consistent_close consistent_timeoutFired)

lemma consistent_run: "consistent st \<Longrightarrow> consistent (fst (run es st))"
proof (induction es arbitrary: st)
  case Nil
  then show ?case by simp
next
  case (Cons e es)
  from Cons.IH[OF consistent_step[OF Cons.prems, of e]]
  show ?case by (simp add: case_prod_beta Let_def)
qed

lemma consistent_initial: "consistent (initial p i)"
  by (simp add: consistent_def initial_def)

lemma consistent_exState: "consistent exState"
  by (simp add: consistent_def exState_def)

lemma fresh_timer:
  assumes "consistent st"
  shows "map_of (timers st) (nextTimer st) = None"
proof (rule ccontr)
  assume "map_of (timers st) (nextTimer st) \<noteq> None"
  then obtain cb where "map_of (timers st) (nextTimer st) = Some cb" by auto
  then have "(nextTimer st, cb) \<in> set (timers st)" by (rule map_of_SomeD)
  with assms show False by (auto simp: consistent_def list_all_iff)
qed

subsection \<open>Routing of responses\<close>

text \<open>
  C2, as amended. For every inbound frame that is not a registration frame and has an
  \<open>ok\<close> field: when its id is in the correlation table, the relay removes that
  correlation, clears its timer and sends the frame itself to the originating client
  (after the copy for the observers); when its id is not in the table, nothing is sent
  and the state is unchanged. The registration check comes first in \<open>message\<close>, so a frame
  of registration shape is registered whatever else it carries.
\<close>

theorem response_routing:
  assumes nr: "\<not> isRegister msg" and okf: "m_ok msg \<noteq> None" and c: "consistent st"
  shows "(map_of (pendingRequests st) (strval (m_id msg)) = Some pending \<longrightarrow>
            message ws (Some msg) st =
              (st\<lparr>timers := clearTimeout (timer pending) (timers st),
                  pendingRequests := AList.delete (strval (m_id msg)) (pendingRequests st)\<rparr>,
               broadcast st Res (map_option ac_appId (map_of (apps st) (appSocket pending))) (BResponse msg)
               @ [(cliSocket pending, WFrame msg)]) \<and>
            map_of (AList.delete (strval (m_id msg)) (pendingRequests st)) (strval (m_id msg)) = None \<and>
            timer pending \<notin> fst ` set (clearTimeout (timer pending) (timers st))) \<and>
         (map_of (pendingRequests st) (strval (m_id msg)) = None \<longrightarrow>
            message ws (Some msg) st = (st, []))"
proof (intro conjI impI)
  assume hit: "map_of (pendingRequests st) (strval (m_id msg)) = Some pending"
  then have "(strval (m_id msg), pending) \<in> set (pendingRequests st)"
    by (rule map_of_SomeD)
  then have "strval (m_id msg) \<in> set (map fst (pendingRequests st))"
    by force
  moreover have "[] \<notin> set (map fst (pendingRequests st))"
    using c by (simp add: consistent_def)
  ultimately have "strval (m_id msg) \<noteq> []" by metis
  then have "truthy (m_id msg)" by (cases "m_id msg") auto
  with okf have "isResponse msg" by (simp add: isResponse_def)
  from message_response_hit[OF nr this hit]
  show "message ws (Some msg) st =
              (st\<lparr>timers := clearTimeout (timer pending) (timers st),
                  pendingRequests := AList.delete (strval (m_id msg)) (pendingRequests st)\<rparr>,
               broadcast st Res (map_option ac_appId (map_of (apps st) (appSocket pending))) (BResponse msg)
               @ [(cliSocket pending, WFrame msg)])" .
next
  show "map_of (AList.delete (strval (m_id msg)) (pendingRequests st)) (strval (m_id msg)) = None"
    by (rule map_of_delete_same)
next
  show "timer pending \<notin> fst ` set (clearTimeout (timer pending) (timers st))"
    unfolding clearTimeout_def by (rule delete_key_notin)
next
  assume miss: "map_of (pendingRequests st) (strval (m_id msg)) = None"
  show "message ws (Some msg) st = (st, [])"
  proof (cases "truthy (m_id msg)")
    case True
    with okf have "isResponse msg" by (simp add: isResponse_def)
    from message_response_miss[OF nr this miss] show ?thesis .
  next
    case False
    then show ?thesis using nr by (simp add: message_def isResponse_def isRequest_def)
  qed
qed

theorem response_routing_witness:
  "message 1 (Some exReply) exState =
     (exState\<lparr>timers := [(1, \<lparr>to_id = ''r2'', to_ws = 4, to_delay = 30000\<rparr>)],
              pendingRequests := [(''r2'', \<lparr>cliSocket = 4, appSocket = 2, timer = 1\<rparr>)]\<rparr>,
      [(9, WBroadcast Res (Some ''com.a'') (BResponse exReply)), (3, WFrame exReply)]) \<and>
   message 1 (Some exUnsolicited) exState = (exState, [])"
  using response_routing [of exReply exState "\<lparr>cliSocket = 3, appSocket = 1, timer = 0\<rparr>" 1]
        response_routing [of exUnsolicited exState "\<lparr>cliSocket = 3, appSocket = 1, timer = 0\<rparr>" 1]
        consistent_exState
  by (simp add: shape_defs ex_defs broadcast_def clearTimeout_def)

text \<open>
  C2 as stated fails: a frame with an \<open>ok\<close> field and the id of a pending correlation that
  also has the registration shape is handled as a registration. The correlation and its
  timer stay, and the originating client receives nothing.
\<close>

theorem response_routing_counterexample:
  "m_ok exRegisterOk = Some True \<and> m_id exRegisterOk = Some ''r1'' \<and>
   map_of (pendingRequests exState) ''r1'' = Some \<lparr>cliSocket = 3, appSocket = 1, timer = 0\<rparr> \<and>
   map_of (pendingRequests (fst (message 5 (Some exRegisterOk) exState))) ''r1''
     = Some \<lparr>cliSocket = 3, appSocket = 1, timer = 0\<rparr> \<and>
   map_of (timers (fst (message 5 (Some exRegisterOk) exState))) 0
     = Some \<lparr>to_id = ''r1'', to_ws = 3, to_delay = 30000\<rparr> \<and>
   snd (message 5 (Some exRegisterOk) exState)
     = [(9, WBroadcast Req (Some ''com.c'') (BRegister ''com.c'' None))]"
  by (simp add: message_def shape_defs ex_defs broadcast_def Let_def)

subsection \<open>Application disconnect\<close>

text \<open>
  C4. When the socket of a registered application closes, every pending correlation whose
  target is that socket is removed from the table, its timer is cleared, and its
  originating client is sent the \<open>ok: false\<close> response "App disconnected"; the
  correlations that target another socket stay as they are, and so do their timers.
\<close>

theorem close_fails_pending:
  assumes app: "cd_role (wsdata st ws) = RoleApp" "map_of (apps st) ws = Some info"
      and ok: "consistent st"
      and cl: "close ws st = (st', sent)"
  shows "pendingRequests st' = filter (\<lambda>(i, p). appSocket p \<noteq> ws) (pendingRequests st) \<and>
         (\<forall>(i, p) \<in> set (pendingRequests st). appSocket p = ws \<longrightarrow>
             map_of (pendingRequests st') i = None \<and>
             timer p \<notin> fst ` set (timers st') \<and>
             (cliSocket p, WResponse \<lparr>r_id = i, r_ok = False, r_data = None,
                                      r_error = Some ''App disconnected''\<rparr>) \<in> set sent) \<and>
         (\<forall>(i, p) \<in> set (pendingRequests st). appSocket p \<noteq> ws \<longrightarrow>
             map_of (pendingRequests st') i = Some p \<and>
             map_of (timers st') (timer p) = map_of (timers st) (timer p))"
proof -
  let ?M = "{e \<in> set (pendingRequests st). appSocket (snd e) = ws}"
  have d: "distinct (map fst (pendingRequests st))"
    and dt: "distinct (map (\<lambda>(i, p). timer p) (pendingRequests st))"
    using ok by (simp_all add: consistent_def)
  have eq: "close ws st = cleanupApp ws st" using app by (simp add: close_def)
  note ch = cleanupApp_char[OF app(2)]
  have tbl: "pendingRequests st' = filter (\<lambda>(i, p). appSocket p \<noteq> ws) (pendingRequests st)"
    using cl eq ch filter_keys_distinct[OF d, of "\<lambda>p. appSocket p = ws"] by auto
  have tms: "timers st' = filter (\<lambda>(t, cb). t \<notin> (\<lambda>e. timer (snd e)) ` ?M) (timers st)"
    using cl eq ch by auto
  have snt: "sent = broadcast st Req (Some (ac_appId info)) (BDisconnect (ac_appId info))
      @ map (\<lambda>(i, p). (cliSocket p, WResponse \<lparr>r_id = i, r_ok = False, r_data = None,
                                 r_error = Some ''App disconnected''\<rparr>))
               (filter (\<lambda>(i, p). appSocket p = ws) (pendingRequests st))"
    using cl eq ch by auto
  have d': "distinct (map fst (pendingRequests st'))"
    unfolding tbl using d by (rule distinct_map_filter)
  have hit: "map_of (pendingRequests st') i = None \<and> timer p \<notin> fst ` set (timers st') \<and>
             (cliSocket p, WResponse \<lparr>r_id = i, r_ok = False, r_data = None,
                                      r_error = Some ''App disconnected''\<rparr>) \<in> set sent"
    if m: "(i, p) \<in> set (pendingRequests st)" "appSocket p = ws" for i p
  proof (intro conjI)
    show "map_of (pendingRequests st') i = None"
    proof (rule ccontr)
      assume "map_of (pendingRequests st') i \<noteq> None"
      then obtain q where "map_of (pendingRequests st') i = Some q" by auto
      then have "(i, q) \<in> set (pendingRequests st')" by (rule map_of_SomeD)
      then have q: "(i, q) \<in> set (pendingRequests st)" "appSocket q \<noteq> ws"
        unfolding tbl by auto
      with m d have "(i, q) = (i, p)" using distinct_map_eq[of fst "pendingRequests st" "(i, q)" "(i, p)"] by simp
      with q m show False by simp
    qed
    have "timer p \<in> (\<lambda>e. timer (snd e)) ` ?M" using m by force
    then show "timer p \<notin> fst ` set (timers st')" unfolding tms by force
    show "(cliSocket p, WResponse \<lparr>r_id = i, r_ok = False, r_data = None,
                                      r_error = Some ''App disconnected''\<rparr>) \<in> set sent"
      unfolding snt using m by force
  qed
  have miss: "map_of (pendingRequests st') i = Some p \<and>
             map_of (timers st') (timer p) = map_of (timers st) (timer p)"
    if m: "(i, p) \<in> set (pendingRequests st)" "appSocket p \<noteq> ws" for i p
  proof (intro conjI)
    have "(i, p) \<in> set (pendingRequests st')" unfolding tbl using m by simp
    then show "map_of (pendingRequests st') i = Some p" using d' by simp
    have nt: "timer p \<notin> (\<lambda>e. timer (snd e)) ` ?M"
    proof
      assume "timer p \<in> (\<lambda>e. timer (snd e)) ` ?M"
      then obtain e where e: "e \<in> set (pendingRequests st)" "appSocket (snd e) = ws" "timer (snd e) = timer p"
        by auto
      then have "e = (i, p)"
        using distinct_map_eq[OF dt e(1) m(1)] by (simp add: case_prod_beta)
      with e m show False by simp
    qed
    show "map_of (timers st') (timer p) = map_of (timers st) (timer p)"
      unfolding tms using nt by (rule map_of_filter_notin)
  qed
  show ?thesis using tbl hit miss by blast
qed

theorem close_fails_pending_witness:
  "pendingRequests (fst (close 1 exState)) = [(''r2'', \<lparr>cliSocket = 4, appSocket = 2, timer = 1\<rparr>)] \<and>
   map_of (timers (fst (close 1 exState))) 0 = None \<and>
   (3, WResponse \<lparr>r_id = ''r1'', r_ok = False, r_data = None, r_error = Some ''App disconnected''\<rparr>)
     \<in> set (snd (close 1 exState)) \<and>
   map_of (timers (fst (close 1 exState))) 1 = Some \<lparr>to_id = ''r2'', to_ws = 4, to_delay = 30000\<rparr>"
  using close_fails_pending [of exState 1 appA "fst (close 1 exState)" "snd (close 1 exState)"]
        consistent_exState
  by (simp add: ex_defs close_def cleanupApp_def clearTimeout_def send_def Let_def broadcast_def)

subsection \<open>Ambiguous target\<close>

lemma set_uniq: "set (uniq seen xs) = set seen \<union> set xs"
  by (induction seen xs rule: uniq.induct) auto

lemma sublist_join: "x \<in> set xs \<Longrightarrow> sublist x (join sep xs)"
proof (induction sep xs rule: join.induct)
  case (1 sep)
  then show ?case by simp
next
  case (2 sep y)
  then show ?case by simp
next
  case (3 sep y z zs)
  show ?case
  proof (cases "x = y")
    case True
    then show ?thesis by (simp add: sublist_append_rightI)
  next
    case False
    with 3 have "sublist x (join sep (z # zs))" by simp
    then show ?thesis by (simp add: sublist_append)
  qed
qed

lemma appId_listed:
  assumes "(s, a) \<in> set (apps st)"
  shows "sublist (ac_appId a) (multipleAppsError st)"
proof -
  have "ac_appId a \<in> set (listAppIds (apps st))"
    using assms by (force simp: listAppIds_def set_uniq)
  then have "sublist (ac_appId a) (join '', '' (listAppIds (apps st)))"
    by (rule sublist_join)
  then show ?thesis
    unfolding multipleAppsError_def by (simp only: sublist_append) simp
qed

text \<open>
  C6, as amended. For every request frame whose type is not a server command, sent on a
  connection with no target application while two or more applications are registered,
  the relay replies at once with \<open>ok: false\<close> and an error that lists every connected
  application id, and the state is unchanged: no correlation is created.
\<close>

theorem ambiguous_request_rejected:
  assumes req: "isRequest msg" "\<not> isRegister msg" "\<not> isResponse msg"
      and nb: "serverHandlers (strval (m_type msg)) = None"
      and nt: "\<not> truthy (cd_appId (wsdata st ws))"
      and two: "length (apps st) \<ge> 2"
  shows "message ws (Some msg) st =
           (st, [(ws, WResponse \<lparr>r_id = strval (m_id msg), r_ok = False, r_data = None,
                                  r_error = Some (multipleAppsError st)\<rparr>)]) \<and>
         (\<forall>(s, a) \<in> set (apps st). sublist (ac_appId a) (multipleAppsError st))"
proof
  have f: "findAppSocket (apps st) (cd_appId (wsdata st ws)) = None"
    using nt two by (simp add: findAppSocket_def)
  show "message ws (Some msg) st =
           (st, [(ws, WResponse \<lparr>r_id = strval (m_id msg), r_ok = False, r_data = None,
                                  r_error = Some (multipleAppsError st)\<rparr>)])"
    using req nb nt two f
    by (simp add: message_def handleServerCommand_def Let_def send_def)
  show "\<forall>(s, a) \<in> set (apps st). sublist (ac_appId a) (multipleAppsError st)"
    using appId_listed by blast
qed

theorem ambiguous_request_rejected_witness:
  "message 5 (Some exRequest) exState =
     (exState, [(5, WResponse \<lparr>r_id = ''r5'', r_ok = False, r_data = None,
         r_error = Some ''Multiple apps connected. Specify --app. Available: com.a, com.b''\<rparr>)]) \<and>
   sublist ''com.a'' (multipleAppsError exState) \<and> sublist ''com.b'' (multipleAppsError exState)"
  using ambiguous_request_rejected [of exRequest exState 5]
  by (simp add: shape_defs ex_defs serverHandlers_def multipleAppsError_def listAppIds_def)

text \<open>
  C6 as stated fails for the server commands: a \<open>ping\<close> request with no target and two
  applications registered is answered \<open>ok: true\<close>.
\<close>

theorem ambiguous_request_counterexample:
  "isRequest exPing \<and> cd_appId (wsdata exState 5) = None \<and> length (apps exState) = 2 \<and>
   message 5 (Some exPing) exState =
     (exState, [(5, WResponse \<lparr>r_id = ''r5'', r_ok = True, r_data = Some (JObj []), r_error = None\<rparr>)])"
  by (simp add: message_def handleServerCommand_def serverHandlers_def send_def shape_defs ex_defs)

subsection \<open>Advertised handlers\<close>



subsection \<open>Timeout\<close>

lemma waiting_filter:
  assumes w: "waiting rid cli app t st"
      and p: "pendingRequests st' = filter P (pendingRequests st)"
      and t: "map_of (timers st') t = map_of (timers st) t"
      and n: "nextTimer st' = nextTimer st"
  shows "waiting rid cli app t st'"
  using assms by (auto simp: waiting_def list_all_iff)

lemma waiting_same:
  assumes w: "waiting rid cli app t st"
      and p: "pendingRequests st' = pendingRequests st"
      and t: "timers st' = timers st"
      and n: "nextTimer st' = nextTimer st"
  shows "waiting rid cli app t st'"
  using assms by (simp add: waiting_def)

lemma waiting_entry:
  assumes "waiting rid cli app t st" "(i, p) \<in> set (pendingRequests st)" "timer p = t"
  shows "i = rid \<and> appSocket p = app"
  using assms by (auto simp: waiting_def list_all_iff)

lemma waiting_message:
  assumes w: "waiting rid cli app t st" and q: "quiet rid app t (Message ws raw)"
  shows "waiting rid cli app t (fst (message ws raw st))"
proof (cases raw)
  case None
  with w show ?thesis by (simp add: message_def)
next
  case (Some msg)
  consider (reg) "isRegister msg"
    | (res) "\<not> isRegister msg" "isResponse msg"
    | (req) "\<not> isRegister msg" "\<not> isResponse msg" "isRequest msg"
    | (other) "\<not> isRegister msg" "\<not> isResponse msg" "\<not> isRequest msg"
    by blast
  then show ?thesis
  proof cases
    case reg
    show ?thesis
      by (rule waiting_same[OF w]) (simp_all add: message_def Let_def Some reg)
  next
    case res
    show ?thesis
    proof (cases "map_of (pendingRequests st) (strval (m_id msg))")
      case None
      with Some res w show ?thesis by (simp add: message_response_miss)
    next
      case hit: (Some pending)
      have ne: "strval (m_id msg) \<noteq> rid"
        using q res(2) Some by (cases "m_id msg") (auto simp: isResponse_def)
      have mem: "(strval (m_id msg), pending) \<in> set (pendingRequests st)"
        using hit by (rule map_of_SomeD)
      have tne: "timer pending \<noteq> t"
        using waiting_entry[OF w mem] ne by auto
      show ?thesis
        unfolding Some message_response_hit[OF res hit]
        by (rule waiting_filter[OF w, where P = "\<lambda>(k', v). k' \<noteq> strval (m_id msg)"])
           (simp_all add: clearTimeout_def delete_eq_filter[symmetric] map_of_delete_other[OF tne])
    qed
  next
    case req
    show ?thesis
    proof (cases "handleServerCommand ws msg st")
      case (Some sent)
      with \<open>raw = Some msg\<close> req w show ?thesis by (simp add: message_def)
    next
      case None
      then have nb: "serverHandlers (strval (m_type msg)) = None"
        by (simp add: handleServerCommand_def split: option.splits)
      show ?thesis
      proof (cases "findAppSocket (apps st) (cd_appId (wsdata st ws))")
        case N: None
        show ?thesis
          by (rule waiting_same[OF w])
             (simp_all add: message_def Let_def \<open>raw = Some msg\<close> req None N)
      next
        case S: (Some appSock)
        let ?v = "\<lparr>cliSocket = ws, appSocket = appSock, timer = nextTimer st\<rparr>"
        have tl: "t < nextTimer st" and tm: "map_of (timers st) t = Some \<lparr>to_id = rid, to_ws = cli, to_delay = 30000\<rparr>"
          using w by (simp_all add: waiting_def)
        have sub: "set (AList.update (strval (m_id msg)) ?v (pendingRequests st))
                   \<subseteq> insert (strval (m_id msg), ?v) (set (pendingRequests st))"
          by (rule update_set_subset)
        have ents: "list_all (\<lambda>(i, p). timer p = t \<longrightarrow> i = rid \<and> appSocket p = app)
                      (AList.update (strval (m_id msg)) ?v (pendingRequests st))"
          unfolding list_all_iff
        proof
          fix x assume "x \<in> set (AList.update (strval (m_id msg)) ?v (pendingRequests st))"
          with sub have "x = (strval (m_id msg), ?v) \<or> x \<in> set (pendingRequests st)" by auto
          then show "case x of (i, p) \<Rightarrow> timer p = t \<longrightarrow> i = rid \<and> appSocket p = app"
            using tl w by (auto simp: waiting_def list_all_iff)
        qed
        show ?thesis
          unfolding \<open>raw = Some msg\<close> message_forward[OF req(3) req(1) req(2) nb S]
          using tl ents tm
          by (simp add: waiting_def map_add_Some_iff)
      qed
    qed
  next
    case other
    with Some w show ?thesis by (simp add: message_def)
  qed
qed

lemma waiting_close:
  assumes w: "waiting rid cli app t st" and q: "ws \<noteq> app"
  shows "waiting rid cli app t (fst (close ws st))"
proof (cases "cd_role (wsdata st ws) = RoleApp")
  case False
  show ?thesis
    by (rule waiting_same[OF w]) (simp_all add: close_def False)
next
  case True
  show ?thesis
  proof (cases "map_of (apps st) ws")
    case None
    then show ?thesis using w True by (simp add: close_def cleanupApp_def)
  next
    case (Some info)
    have nt: "t \<notin> (\<lambda>e. timer (snd e)) ` {e \<in> set (pendingRequests st). appSocket (snd e) = ws}"
    proof
      assume "t \<in> (\<lambda>e. timer (snd e)) ` {e \<in> set (pendingRequests st). appSocket (snd e) = ws}"
      then obtain e where e: "e \<in> set (pendingRequests st)" "appSocket (snd e) = ws" "timer (snd e) = t"
        by auto
      from waiting_entry[OF w, of "fst e" "snd e"] e q show False by simp
    qed
    show ?thesis
      unfolding close_def cleanupApp_char[OF Some]
      by (simp add: True, rule waiting_filter[OF w]) (simp_all add: map_of_filter_notin[OF nt])
  qed
qed

lemma waiting_fire:
  assumes w: "waiting rid cli app t st" and q: "u \<noteq> t"
  shows "waiting rid cli app t (fst (timeoutFired u st))"
proof (cases "map_of (timers st) u")
  case None
  with w show ?thesis by (simp add: timeoutFired_def)
next
  case (Some cb)
  show ?thesis
    unfolding timeoutFired_armed[OF Some]
    by (rule waiting_filter[OF w, where P = "\<lambda>(k', v). k' \<noteq> to_id cb"])
       (simp_all add: delete_eq_filter[symmetric] map_of_delete_other[OF q])
qed

lemma waiting_step:
  assumes w: "waiting rid cli app t st" and q: "quiet rid app t e"
  shows "waiting rid cli app t (fst (step e st))"
proof (cases e)
  case (Open ws r a)
  show ?thesis
    by (rule waiting_same[OF w]) (simp_all add: Open openWs_def Let_def)
next
  case (Message ws raw)
  with waiting_message[OF w] q show ?thesis by simp
next
  case (Close ws)
  with waiting_close[OF w] q show ?thesis by simp
next
  case (Fire u)
  with waiting_fire[OF w] q show ?thesis by simp
qed

lemma waiting_run:
  assumes "waiting rid cli app t st" "list_all (quiet rid app t) es"
  shows "waiting rid cli app t (fst (run es st))"
  using assms
proof (induction es arbitrary: st)
  case Nil
  then show ?case by simp
next
  case (Cons e es)
  from Cons.prems have "waiting rid cli app t (fst (step e st))" "list_all (quiet rid app t) es"
    by (simp_all add: waiting_step)
  from Cons.IH[OF this] show ?case by (simp add: case_prod_beta Let_def)
qed

lemma waiting_forward:
  assumes c: "consistent st"
  shows "waiting rid ws app (nextTimer st)
     (st\<lparr>timers := timers st @ [(nextTimer st, \<lparr>to_id = rid, to_ws = ws, to_delay = 30000\<rparr>)],
         nextTimer := Suc (nextTimer st),
         pendingRequests := AList.update rid
            \<lparr>cliSocket = ws, appSocket = app, timer = nextTimer st\<rparr> (pendingRequests st)\<rparr>)"
proof -
  let ?v = "\<lparr>cliSocket = ws, appSocket = app, timer = nextTimer st\<rparr>"
  have lt: "\<forall>(i, p) \<in> set (pendingRequests st). timer p < nextTimer st"
    using c by (auto simp: consistent_def list_all_iff)
  have sub: "set (AList.update rid ?v (pendingRequests st)) \<subseteq> insert (rid, ?v) (set (pendingRequests st))"
    by (rule update_set_subset)
  have ents: "list_all (\<lambda>(i, p). timer p = nextTimer st \<longrightarrow> i = rid \<and> appSocket p = app)
                (AList.update rid ?v (pendingRequests st))"
    unfolding list_all_iff
  proof
    fix x assume "x \<in> set (AList.update rid ?v (pendingRequests st))"
    with sub have "x = (rid, ?v) \<or> x \<in> set (pendingRequests st)" by auto
    then show "case x of (i, p) \<Rightarrow> timer p = nextTimer st \<longrightarrow> i = rid \<and> appSocket p = app"
      using lt by auto
  qed
  show ?thesis
    using ents fresh_timer[OF c] by (simp add: waiting_def map_add_Some_iff)
qed

text \<open>
  While no event reuses an id, an id that has no correlation keeps having none.
\<close>

lemma map_of_filter_None: "map_of al k = None \<Longrightarrow> map_of (filter P al) k = None"
  by (induction al) (auto split: if_splits)

lemma absent_message:
  assumes a: "map_of (pendingRequests st) rid = None" and n: "noReuse rid (Message ws raw)"
  shows "map_of (pendingRequests (fst (message ws raw st))) rid = None"
proof (cases raw)
  case None
  with a show ?thesis by (simp add: message_def)
next
  case (Some msg)
  consider (reg) "isRegister msg"
    | (res) "\<not> isRegister msg" "isResponse msg"
    | (req) "\<not> isRegister msg" "\<not> isResponse msg" "isRequest msg"
    | (other) "\<not> isRegister msg" "\<not> isResponse msg" "\<not> isRequest msg"
    by blast
  then show ?thesis
  proof cases
    case reg
    with Some a show ?thesis by (simp add: message_register)
  next
    case res
    show ?thesis
    proof (cases "map_of (pendingRequests st) (strval (m_id msg))")
      case None
      with Some res a show ?thesis by (simp add: message_response_miss)
    next
      case hit: (Some pending)
      show ?thesis
        unfolding Some message_response_hit[OF res hit]
        using a by (simp add: delete_eq_filter map_of_filter_None)
    qed
  next
    case req
    show ?thesis
    proof (cases "handleServerCommand ws msg st")
      case (Some sent)
      with \<open>raw = Some msg\<close> req a show ?thesis by (simp add: message_def)
    next
      case None
      then have nb: "serverHandlers (strval (m_type msg)) = None"
        by (simp add: handleServerCommand_def split: option.splits)
      show ?thesis
      proof (cases "findAppSocket (apps st) (cd_appId (wsdata st ws))")
        case N: None
        with \<open>raw = Some msg\<close> req None a show ?thesis
          by (simp add: message_def Let_def)
      next
        case S: (Some appSock)
        have "m_ok msg = None" using req(2,3) by (simp add: isResponse_def isRequest_def)
        with n Some have "m_id msg \<noteq> Some rid" by simp
        moreover have "truthy (m_id msg)" using req(3) by (simp add: isRequest_def)
        ultimately have ne: "strval (m_id msg) \<noteq> rid" by (cases "m_id msg") auto
        show ?thesis
          unfolding \<open>raw = Some msg\<close> message_forward[OF req(3) req(1) req(2) nb S]
          using a ne by (simp add: update_conv')
      qed
    qed
  next
    case other
    with Some a show ?thesis by (simp add: message_def)
  qed
qed

lemma absent_close:
  assumes a: "map_of (pendingRequests st) rid = None"
  shows "map_of (pendingRequests (fst (close ws st))) rid = None"
proof (cases "cd_role (wsdata st ws) = RoleApp")
  case False
  with a show ?thesis by (simp add: close_def)
next
  case True
  show ?thesis
  proof (cases "map_of (apps st) ws")
    case None
    with a True show ?thesis by (simp add: close_def cleanupApp_def)
  next
    case (Some info)
    show ?thesis
      unfolding close_def cleanupApp_char[OF Some]
      using a True by (simp add: map_of_filter_None)
  qed
qed

lemma absent_fire:
  assumes a: "map_of (pendingRequests st) rid = None"
  shows "map_of (pendingRequests (fst (timeoutFired u st))) rid = None"
proof (cases "map_of (timers st) u")
  case None
  with a show ?thesis by (simp add: timeoutFired_def)
next
  case (Some cb)
  show ?thesis
    unfolding timeoutFired_armed[OF Some]
    using a by (simp add: delete_eq_filter map_of_filter_None)
qed

lemma absent_step:
  assumes a: "map_of (pendingRequests st) rid = None" and n: "noReuse rid e"
  shows "map_of (pendingRequests (fst (step e st))) rid = None"
proof (cases e)
  case (Open ws r b)
  with a show ?thesis by (simp add: openWs_def Let_def)
next
  case (Message ws raw)
  with absent_message[OF a] n show ?thesis by simp
next
  case (Close ws)
  with absent_close[OF a] show ?thesis by simp
next
  case (Fire u)
  with absent_fire[OF a] show ?thesis by simp
qed

lemma absent_run:
  assumes "map_of (pendingRequests st) rid = None" "list_all (noReuse rid) es"
  shows "map_of (pendingRequests (fst (run es st))) rid = None"
  using assms
proof (induction es arbitrary: st)
  case Nil
  then show ?case by simp
next
  case (Cons e es)
  from Cons.prems have "map_of (pendingRequests (fst (step e st))) rid = None"
      "list_all (noReuse rid) es"
    by (simp_all add: absent_step)
  from Cons.IH[OF this] show ?case by (simp add: case_prod_beta Let_def)
qed

text \<open>
  C3, as amended. A request is forwarded and its safety timer armed with 30000 ms in the
  same step. If, until that timer expires, no frame with an \<open>ok\<close> field that carries the
  request's id arrives on any connection and the application's socket does not close, then
  the expiry sends exactly one message, the \<open>ok: false\<close> response "Request timed out" to
  the originating client, and removes the correlation; nothing goes to the application
  and the timer is spent. A reply with that id that arrives after the expiry, before any
  frame without an \<open>ok\<close> field has carried the id again, is dropped with nothing sent and
  no change of state.
\<close>

theorem timeout_after_forward:
  assumes req: "isRequest msg" "\<not> isRegister msg" "\<not> isResponse msg"
      and nb: "serverHandlers (strval (m_type msg)) = None"
      and res: "findAppSocket (apps st) (cd_appId (wsdata st ws)) = Some app"
      and c: "consistent st"
      and fwd: "message ws (Some msg) st = (st1, sent1)"
      and q: "list_all (quiet (strval (m_id msg)) app (nextTimer st)) es"
      and r: "run es st1 = (st2, sent2)"
      and f: "timeoutFired (nextTimer st) st2 = (st3, sent3)"
      and nr: "list_all (noReuse (strval (m_id msg))) es'"
      and r': "run es' st3 = (st4, sent4)"
  shows "sent1 = broadcast st Req (map_option ac_appId (map_of (apps st) app))
                   (BRequest (strval (m_id msg)) (strval (m_type msg)) (m_payload msg))
                 @ [(app, WRequest (strval (m_id msg)) (strval (m_type msg)) (m_payload msg))] \<and>
         map_of (timers st1) (nextTimer st) =
           Some \<lparr>to_id = strval (m_id msg), to_ws = ws, to_delay = 30000\<rparr> \<and>
         sent3 = [(ws, WResponse \<lparr>r_id = strval (m_id msg), r_ok = False, r_data = None,
                                   r_error = Some ''Request timed out''\<rparr>)] \<and>
         map_of (pendingRequests st3) (strval (m_id msg)) = None \<and>
         timeoutFired (nextTimer st) st3 = (st3, []) \<and>
         (\<forall>late s. m_ok late \<noteq> None \<and> m_id late = m_id msg \<and> \<not> isRegister late \<longrightarrow>
              message s (Some late) st4 = (st4, []))"
proof -
  let ?rid = "strval (m_id msg)"
  let ?t = "nextTimer st"
  note mf = message_forward[OF req nb res]
  have st1: "st1 = st\<lparr>timers := timers st @ [(?t, \<lparr>to_id = ?rid, to_ws = ws, to_delay = 30000\<rparr>)],
         nextTimer := Suc ?t,
         pendingRequests := AList.update ?rid \<lparr>cliSocket = ws, appSocket = app, timer = ?t\<rparr> (pendingRequests st)\<rparr>"
    and s1: "sent1 = broadcast st Req (map_option ac_appId (map_of (apps st) app))
                        (BRequest ?rid (strval (m_type msg)) (m_payload msg))
                     @ [(app, WRequest ?rid (strval (m_type msg)) (m_payload msg))]"
    using fwd mf by simp_all
  have w1: "waiting ?rid ws app ?t st1"
    unfolding st1 by (rule waiting_forward[OF c])
  have w2: "waiting ?rid ws app ?t st2"
    using waiting_run[OF w1 q] r by simp
  then have armed: "map_of (timers st2) ?t = Some \<lparr>to_id = ?rid, to_ws = ws, to_delay = 30000\<rparr>"
    by (simp add: waiting_def)
  from timeoutFired_armed[OF armed] f
  have st3: "st3 = st2\<lparr>timers := AList.delete ?t (timers st2),
                        pendingRequests := AList.delete ?rid (pendingRequests st2)\<rparr>"
    and s3: "sent3 = [(ws, WResponse \<lparr>r_id = ?rid, r_ok = False, r_data = None,
                                      r_error = Some ''Request timed out''\<rparr>)]"
    by simp_all
  have gone: "map_of (pendingRequests st3) ?rid = None"
    unfolding st3 by (simp add: map_of_delete_same)
  have cleared: "map_of (timers st3) ?t = None"
    unfolding st3 by (simp add: map_of_delete_same)
  have again: "timeoutFired ?t st3 = (st3, [])"
    by (rule timeoutFired_cleared[OF cleared])
  have gone4: "map_of (pendingRequests st4) ?rid = None"
    using absent_run[OF gone nr] r' by simp
  have late: "message s (Some late) st4 = (st4, [])"
    if l: "m_ok late \<noteq> None" "m_id late = m_id msg" "\<not> isRegister late" for late s
  proof -
    have "isResponse late" using l req(1) by (simp add: isResponse_def isRequest_def)
    moreover have "map_of (pendingRequests st4) (strval (m_id late)) = None"
      using gone4 l(2) by simp
    ultimately show ?thesis using l(3) by (simp add: message_response_miss)
  qed
  have a1: "map_of (timers st1) ?t = Some \<lparr>to_id = ?rid, to_ws = ws, to_delay = 30000\<rparr>"
    using w1 by (simp add: waiting_def)
  show ?thesis using s1 a1 s3 gone again late by simp
qed

theorem timeout_after_forward_witness:
  "list_all (quiet ''r5'' 1 2) exQuiet \<and> list_all (noReuse ''r5'') exAfter \<and>
   snd (message 3 (Some exRequest) exState) =
     [(9, WBroadcast Req (Some ''com.a'') (BRequest ''r5'' ''get-state'' (m_payload exRequest))),
      (1, WRequest ''r5'' ''get-state'' (m_payload exRequest))] \<and>
   snd (timeoutFired 2 (fst (run exQuiet (fst (message 3 (Some exRequest) exState))))) =
     [(3, WResponse \<lparr>r_id = ''r5'', r_ok = False, r_data = None,
                      r_error = Some ''Request timed out''\<rparr>)] \<and>
   message 1 (Some exLate)
     (fst (run exAfter (fst (timeoutFired 2 (fst (run exQuiet (fst (message 3 (Some exRequest) exState)))))))) =
     (fst (run exAfter (fst (timeoutFired 2 (fst (run exQuiet (fst (message 3 (Some exRequest) exState))))))), [])"
proof -
  have q: "list_all (quiet ''r5'' 1 2) exQuiet"
    by (simp add: exQuiet_def exReply_def exAgain_def noFrame_def)
  have n: "list_all (noReuse ''r5'') exAfter"
    by (simp add: exAfter_def exRegister_def exUnsolicited_def noFrame_def)
  have h: "isRequest exRequest" "\<not> isRegister exRequest" "\<not> isResponse exRequest"
          "serverHandlers (strval (m_type exRequest)) = None"
          "findAppSocket (apps exState) (cd_appId (wsdata exState 3)) = Some 1"
          "strval (m_id exRequest) = ''r5''" "nextTimer exState = 2"
          "m_ok exLate \<noteq> None" "m_id exLate = m_id exRequest" "\<not> isRegister exLate"
          "strval (m_type exRequest) = ''get-state''"
          "broadcast exState Req (map_option ac_appId (map_of (apps exState) 1))
             (BRequest ''r5'' ''get-state'' (m_payload exRequest))
           = [(9, WBroadcast Req (Some ''com.a'') (BRequest ''r5'' ''get-state'' (m_payload exRequest)))]"
    by (simp_all add: shape_defs ex_defs serverHandlers_def findAppSocket_def broadcast_def)
  from timeout_after_forward [of exRequest exState 3 1
          "fst (message 3 (Some exRequest) exState)" "snd (message 3 (Some exRequest) exState)"
          exQuiet
          "fst (run exQuiet (fst (message 3 (Some exRequest) exState)))"
          "snd (run exQuiet (fst (message 3 (Some exRequest) exState)))"
          "fst (timeoutFired 2 (fst (run exQuiet (fst (message 3 (Some exRequest) exState)))))"
          "snd (timeoutFired 2 (fst (run exQuiet (fst (message 3 (Some exRequest) exState)))))"
          exAfter
          "fst (run exAfter (fst (timeoutFired 2 (fst (run exQuiet (fst (message 3 (Some exRequest) exState)))))))"
          "snd (run exAfter (fst (timeoutFired 2 (fst (run exQuiet (fst (message 3 (Some exRequest) exState)))))))"]
       h q n consistent_exState
  show ?thesis by simp
qed

text \<open>
  C3 as stated fails. In the first run the application on socket 1 sends nothing; a frame
  with an \<open>ok\<close> field and the id arrives on socket 7, is sent on to the client and clears
  the timer, whose expiry then sends nothing: no timeout error reaches the client. In the
  second run the timer has expired and the id is used again by the client on socket 4; the
  late reply with that id is then delivered to socket 4. In the third run the application's
  socket closes before the expiry: the client is told "App disconnected" and the timer,
  cleared, sends nothing.
\<close>

theorem timeout_after_forward_counterexample:
  "snd (run [Message 3 (Some exRequest), Message 7 (Some exLate), Fire 2] exState) =
     [(9, WBroadcast Req (Some ''com.a'') (BRequest ''r5'' ''get-state'' (m_payload exRequest))),
      (1, WRequest ''r5'' ''get-state'' (m_payload exRequest)),
      (9, WBroadcast Res (Some ''com.a'') (BResponse exLate)),
      (3, WFrame exLate)] \<and>
   snd (run [Message 3 (Some exRequest), Fire 2, Message 4 (Some exAgain), Message 1 (Some exLate)] exState) =
     [(9, WBroadcast Req (Some ''com.a'') (BRequest ''r5'' ''get-state'' (m_payload exRequest))),
      (1, WRequest ''r5'' ''get-state'' (m_payload exRequest)),
      (3, WResponse \<lparr>r_id = ''r5'', r_ok = False, r_data = None, r_error = Some ''Request timed out''\<rparr>),
      (9, WBroadcast Req (Some ''com.b'') (BRequest ''r5'' ''navigate'' None)),
      (2, WRequest ''r5'' ''navigate'' None),
      (9, WBroadcast Res (Some ''com.b'') (BResponse exLate)),
      (4, WFrame exLate)] \<and>
   snd (run [Message 3 (Some exRequest), Close 1, Fire 2] exState) =
     [(9, WBroadcast Req (Some ''com.a'') (BRequest ''r5'' ''get-state'' (m_payload exRequest))),
      (1, WRequest ''r5'' ''get-state'' (m_payload exRequest)),
      (9, WBroadcast Req (Some ''com.a'') (BDisconnect ''com.a'')),
      (3, WResponse \<lparr>r_id = ''r1'', r_ok = False, r_data = None, r_error = Some ''App disconnected''\<rparr>),
      (3, WResponse \<lparr>r_id = ''r5'', r_ok = False, r_data = None, r_error = Some ''App disconnected''\<rparr>)]"
  by (simp add: message_def handleServerCommand_def serverHandlers_def findAppSocket_def
        timeoutFired_def close_def cleanupApp_def send_def broadcast_def clearTimeout_def Let_def
        shape_defs ex_defs)

subsection \<open>Requests that reuse an id\<close>

text \<open>
  C10, as amended. A request whose id already has a pending correlation overwrites the
  table entry and leaves the earlier timer armed. When that timer expires it deletes the
  correlation then stored under the id, which is the overwriting request's, and sends the
  timeout error to the client of the earlier request, the one its callback closed over.
  The overwriting request keeps its own timer, and a reply for the id that arrives after
  the expiry is dropped.
\<close>

theorem orphaned_timer_fires:
  assumes r1: "isRequest req1" "\<not> isRegister req1" "\<not> isResponse req1"
              "serverHandlers (strval (m_type req1)) = None"
              "findAppSocket (apps st) (cd_appId (wsdata st ws1)) = Some app1"
      and r2: "isRequest req2" "\<not> isRegister req2" "\<not> isResponse req2"
              "serverHandlers (strval (m_type req2)) = None"
              "findAppSocket (apps st) (cd_appId (wsdata st ws2)) = Some app2"
      and same: "m_id req2 = m_id req1"
      and c: "consistent st"
      and m1: "message ws1 (Some req1) st = (st1, sent1)"
      and m2: "message ws2 (Some req2) st1 = (st2, sent2)"
      and f: "timeoutFired (nextTimer st) st2 = (st3, sent3)"
  shows "map_of (pendingRequests st2) (strval (m_id req1)) =
           Some \<lparr>cliSocket = ws2, appSocket = app2, timer = Suc (nextTimer st)\<rparr> \<and>
         map_of (timers st2) (nextTimer st) =
           Some \<lparr>to_id = strval (m_id req1), to_ws = ws1, to_delay = 30000\<rparr> \<and>
         sent3 = [(ws1, WResponse \<lparr>r_id = strval (m_id req1), r_ok = False, r_data = None,
                                    r_error = Some ''Request timed out''\<rparr>)] \<and>
         map_of (pendingRequests st3) (strval (m_id req1)) = None \<and>
         map_of (timers st3) (Suc (nextTimer st)) =
           Some \<lparr>to_id = strval (m_id req1), to_ws = ws2, to_delay = 30000\<rparr> \<and>
         (\<forall>late s. m_ok late \<noteq> None \<and> m_id late = m_id req1 \<and> \<not> isRegister late \<longrightarrow>
              message s (Some late) st3 = (st3, []))"
proof -
  let ?rid = "strval (m_id req1)"
  let ?t = "nextTimer st"
  have st1: "st1 = st\<lparr>timers := timers st @ [(?t, \<lparr>to_id = ?rid, to_ws = ws1, to_delay = 30000\<rparr>)],
         nextTimer := Suc ?t,
         pendingRequests := AList.update ?rid \<lparr>cliSocket = ws1, appSocket = app1, timer = ?t\<rparr> (pendingRequests st)\<rparr>"
    using m1 message_forward[OF r1] by simp
  have c1: "consistent st1"
    using consistent_message[OF c, of ws1 "Some req1"] m1 by simp
  have r2': "findAppSocket (apps st1) (cd_appId (wsdata st1 ws2)) = Some app2"
    using r2(5) by (simp add: st1)
  have st2: "st2 = st1\<lparr>timers := timers st1 @ [(Suc ?t, \<lparr>to_id = ?rid, to_ws = ws2, to_delay = 30000\<rparr>)],
         nextTimer := Suc (Suc ?t),
         pendingRequests := AList.update ?rid \<lparr>cliSocket = ws2, appSocket = app2, timer = Suc ?t\<rparr> (pendingRequests st1)\<rparr>"
    using m2 message_forward[OF r2(1-4) r2'] same by (simp add: st1)
  have t1: "map_of (timers st1) ?t = Some \<lparr>to_id = ?rid, to_ws = ws1, to_delay = 30000\<rparr>"
    unfolding st1 using fresh_timer[OF c] by (simp add: map_add_Some_iff)
  have t1n: "map_of (timers st1) (Suc ?t) = None"
    using fresh_timer[OF c1] by (simp add: st1)
  have over: "map_of (pendingRequests st2) ?rid = Some \<lparr>cliSocket = ws2, appSocket = app2, timer = Suc ?t\<rparr>"
    unfolding st2 by (simp add: update_conv')
  have t2: "map_of (timers st2) ?t = Some \<lparr>to_id = ?rid, to_ws = ws1, to_delay = 30000\<rparr>"
    unfolding st2 using t1 by (simp add: map_add_Some_iff)
  have t2': "map_of (timers st2) (Suc ?t) = Some \<lparr>to_id = ?rid, to_ws = ws2, to_delay = 30000\<rparr>"
    unfolding st2 using t1n by (simp add: map_add_Some_iff)
  from timeoutFired_armed[OF t2] f
  have st3: "st3 = st2\<lparr>timers := AList.delete ?t (timers st2),
                        pendingRequests := AList.delete ?rid (pendingRequests st2)\<rparr>"
    and s3: "sent3 = [(ws1, WResponse \<lparr>r_id = ?rid, r_ok = False, r_data = None,
                                      r_error = Some ''Request timed out''\<rparr>)]"
    by simp_all
  have gone: "map_of (pendingRequests st3) ?rid = None"
    unfolding st3 by (simp add: map_of_delete_same)
  have keep: "map_of (timers st3) (Suc ?t) = Some \<lparr>to_id = ?rid, to_ws = ws2, to_delay = 30000\<rparr>"
    unfolding st3 using t2' by (simp add: map_of_delete_other)
  have late: "message s (Some late) st3 = (st3, [])"
    if l: "m_ok late \<noteq> None" "m_id late = m_id req1" "\<not> isRegister late" for late s
  proof -
    have "isResponse late" using l r1(1) by (simp add: isResponse_def isRequest_def)
    moreover have "map_of (pendingRequests st3) (strval (m_id late)) = None"
      using gone l(2) by simp
    ultimately show ?thesis using l(3) by (simp add: message_response_miss)
  qed
  show ?thesis using over t2 s3 gone keep late by simp
qed

theorem orphaned_timer_fires_witness:
  "snd (timeoutFired 2 (fst (message 4 (Some exAgain) (fst (message 3 (Some exRequest) exState))))) =
     [(3, WResponse \<lparr>r_id = ''r5'', r_ok = False, r_data = None,
                      r_error = Some ''Request timed out''\<rparr>)] \<and>
   map_of (timers (fst (timeoutFired 2
       (fst (message 4 (Some exAgain) (fst (message 3 (Some exRequest) exState))))))) 3 =
     Some \<lparr>to_id = ''r5'', to_ws = 4, to_delay = 30000\<rparr>"
proof -
  have h: "isRequest exRequest" "\<not> isRegister exRequest" "\<not> isResponse exRequest"
          "serverHandlers (strval (m_type exRequest)) = None"
          "findAppSocket (apps exState) (cd_appId (wsdata exState 3)) = Some 1"
          "isRequest exAgain" "\<not> isRegister exAgain" "\<not> isResponse exAgain"
          "serverHandlers (strval (m_type exAgain)) = None"
          "findAppSocket (apps exState) (cd_appId (wsdata exState 4)) = Some 2"
          "m_id exAgain = m_id exRequest"
          "strval (m_id exRequest) = ''r5''" "nextTimer exState = 2"
    by (simp_all add: shape_defs ex_defs serverHandlers_def findAppSocket_def)
  from orphaned_timer_fires [of exRequest exState 3 1 exAgain 4 2
          "fst (message 3 (Some exRequest) exState)" "snd (message 3 (Some exRequest) exState)"
          "fst (message 4 (Some exAgain) (fst (message 3 (Some exRequest) exState)))"
          "snd (message 4 (Some exAgain) (fst (message 3 (Some exRequest) exState)))"
          "fst (timeoutFired 2 (fst (message 4 (Some exAgain) (fst (message 3 (Some exRequest) exState)))))"
          "snd (timeoutFired 2 (fst (message 4 (Some exAgain) (fst (message 3 (Some exRequest) exState)))))"]
       h consistent_exState
  show ?thesis by (simp add: numeral_3_eq_3)
qed

text \<open>
  C10 as stated fails: the timeout error of the orphaned timer goes to socket 3, the client
  of the earlier request, and not to socket 4, the client of the overwriting one.
\<close>

theorem orphaned_timer_counterexample:
  "map_of (pendingRequests (fst (message 4 (Some exAgain) (fst (message 3 (Some exRequest) exState))))) ''r5''
     = Some \<lparr>cliSocket = 4, appSocket = 2, timer = 3\<rparr> \<and>
   snd (timeoutFired 2 (fst (message 4 (Some exAgain) (fst (message 3 (Some exRequest) exState))))) =
     [(3, WResponse \<lparr>r_id = ''r5'', r_ok = False, r_data = None,
                      r_error = Some ''Request timed out''\<rparr>)]"
  by (simp add: message_def handleServerCommand_def serverHandlers_def findAppSocket_def
        timeoutFired_def send_def broadcast_def Let_def shape_defs ex_defs)

subsection \<open>Reconnection of the client\<close>

lemma oneTimer_connect: "oneTimer cl \<Longrightarrow> oneTimer (connect cl)"
  by (simp add: oneTimer_def connect_def Let_def)

lemma oneTimer_scheduleReconnect: "oneTimer cl \<Longrightarrow> oneTimer (scheduleReconnect cl)"
  by (auto simp: oneTimer_def scheduleReconnect_def Let_def split: option.splits)

lemma oneTimer_onclose: "oneTimer cl \<Longrightarrow> oneTimer (onclose s cl)"
proof -
  assume o: "oneTimer cl"
  then have "oneTimer (cl\<lparr>c_ws := None, c_socks := removeAll s (c_socks cl)\<rparr>)"
    by (simp add: oneTimer_def)
  then show ?thesis
    by (simp add: onclose_def Let_def oneTimer_scheduleReconnect)
qed

lemma oneTimer_disconnect:
  assumes "oneTimer cl"
  shows "c_timers (fst (disconnect cl)) = [] \<and> reconnectTimer (fst (disconnect cl)) = None"
proof (cases "reconnectTimer cl")
  case None
  with assms show ?thesis by (simp add: disconnect_def oneTimer_def Let_def)
next
  case (Some t)
  with assms obtain d where "c_timers cl = [(t, d)]"
    by (cases "c_timers cl") (auto simp: oneTimer_def)
  with Some show ?thesis by (simp add: disconnect_def Let_def)
qed

lemma oneTimer_reconnectFired: "oneTimer cl \<Longrightarrow> oneTimer (reconnectFired t cl)"
proof (cases "map_of (c_timers cl) t")
  case None
  assume "oneTimer cl"
  with None show ?thesis by (simp add: reconnectFired_def)
next
  case (Some d)
  assume o: "oneTimer cl"
  from Some have mem: "(t, d) \<in> set (c_timers cl)" by (rule map_of_SomeD)
  then obtain u where u: "reconnectTimer cl = Some u"
    using o by (cases "reconnectTimer cl") (auto simp: oneTimer_def)
  with o obtain e where e: "c_timers cl = [(u, e)]"
    by (cases "c_timers cl") (auto simp: oneTimer_def)
  with mem have "u = t" by simp
  with e have "oneTimer (cl\<lparr>c_timers := AList.delete t (c_timers cl), reconnectTimer := None,
                   reconnectDelay := min (reconnectDelay cl * 2) RECONNECT_CAP_MS\<rparr>)"
    by (simp add: oneTimer_def)
  then show ?thesis
    by (simp add: reconnectFired_def Some oneTimer_connect)
qed

lemma oneTimer_registerHandler: "oneTimer cl \<Longrightarrow> oneTimer (registerHandler t config cl)"
  by (simp add: oneTimer_def registerHandler_def Let_def split: option.splits)

lemma oneTimer_cstep: "oneTimer cl \<Longrightarrow> oneTimer (fst (cstep e cl))"
proof (cases e)
  case Connect
  assume "oneTimer cl" with Connect show ?thesis by (simp add: oneTimer_connect)
next
  case Disconnect
  assume "oneTimer cl"
  with oneTimer_disconnect[of cl] Disconnect show ?thesis by (simp add: oneTimer_def)
next
  case (Handle t config)
  assume "oneTimer cl" with Handle show ?thesis by (simp add: handle_def oneTimer_registerHandler)
next
  case (OnOpen s)
  assume "oneTimer cl" with OnOpen show ?thesis
    by (simp add: onopen_def oneTimer_def Let_def split: option.splits)
next
  case (OnMessage s raw)
  assume "oneTimer cl" with OnMessage show ?thesis
    by (simp add: onmessage_def split: option.splits outcome.splits)
next
  case (OnClose s)
  assume "oneTimer cl" with OnClose show ?thesis by (simp add: oneTimer_onclose)
next
  case (ReconnectFire t)
  assume "oneTimer cl" with ReconnectFire show ?thesis by (simp add: oneTimer_reconnectFired)
qed

lemma oneTimer_crun: "oneTimer cl \<Longrightarrow> oneTimer (crun es cl)"
  by (induction es arbitrary: cl) (simp_all add: oneTimer_cstep)

lemma fold_registerHandler_keeps:
  "c_timers (fold (\<lambda>(t, config). registerHandler t config) entries cl) = c_timers cl \<and>
   reconnectTimer (fold (\<lambda>(t, config). registerHandler t config) entries cl) = reconnectTimer cl \<and>
   reconnectDelay (fold (\<lambda>(t, config). registerHandler t config) entries cl) = reconnectDelay cl"
  by (induction entries arbitrary: cl)
     (auto simp: registerHandler_def Let_def split: option.splits)

lemma createHotline_timers:
  "c_timers (createHotline opts) = [] \<and> reconnectTimer (createHotline opts) = None \<and>
   reconnectDelay (createHotline opts) = 1000"
  by (cases "o_handlers opts") (simp_all add: createHotline_def Let_def fold_registerHandler_keeps)

lemma oneTimer_createHotline: "oneTimer (createHotline opts)"
  by (simp add: oneTimer_def createHotline_timers)

lemma oneTimer_length: "oneTimer cl \<Longrightarrow> length (c_timers cl) \<le> 1"
proof -
  assume "oneTimer cl"
  then have "length (map fst (c_timers cl)) \<le> 1"
    by (simp add: oneTimer_def split: option.splits)
  then show ?thesis by simp
qed

text \<open>The state between two attempts.\<close>

lemma backoff_min: "min (min (d * 2 ^ n) (30000::nat) * 2) 30000 = min (d * 2 ^ Suc n) 30000"
  by (simp add: min_def)

lemma attempts_state:
  assumes dev: "o_dev (options cl) \<noteq> Some False"
      and idle: "reconnectTimer cl = None" "c_timers cl = []"
      and live: "\<not> intentionalClose cl"
      and cap: "reconnectDelay cl \<le> 30000"
  shows "\<exists>t. reconnectTimer (attempts n (onclose s cl)) = Some t \<and>
             c_timers (attempts n (onclose s cl)) = [(t, min (reconnectDelay cl * 2 ^ n) 30000)] \<and>
             reconnectDelay (attempts n (onclose s cl)) = min (reconnectDelay cl * 2 ^ n) 30000 \<and>
             \<not> intentionalClose (attempts n (onclose s cl)) \<and>
             options (attempts n (onclose s cl)) = options cl"
proof (induction n)
  case 0
  show ?case using idle live cap
    by (simp add: onclose_def scheduleReconnect_def Let_def)
next
  case (Suc n)
  then obtain t where t: "reconnectTimer (attempts n (onclose s cl)) = Some t"
      "c_timers (attempts n (onclose s cl)) = [(t, min (reconnectDelay cl * 2 ^ n) 30000)]"
      "reconnectDelay (attempts n (onclose s cl)) = min (reconnectDelay cl * 2 ^ n) 30000"
      "\<not> intentionalClose (attempts n (onclose s cl))"
      "options (attempts n (onclose s cl)) = options cl"
    by blast
  let ?c = "attempts n (onclose s cl)"
  have "o_dev (options ?c) \<noteq> Some False" using t(5) dev by simp
  then show ?case
    using t(1-4) t(5)
    by (simp add: failedAttempt_def reconnectFired_def connect_def onclose_def
          scheduleReconnect_def Let_def RECONNECT_CAP_MS_def backoff_min[simplified])
qed

text \<open>
  C9. The reconnection delay starts at 1000 ms and is reset to 1000 ms when a socket
  opens; after a close that the caller did not ask for, the timer armed after the n-th
  consecutive failed attempt carries \<open>min (1000 * 2 ^ n) 30000\<close> ms; a close after a
  caller-initiated disconnect arms nothing; at any point of any run at most one
  reconnection timer is armed, and \<open>disconnect\<close> leaves none.
\<close>

theorem reconnect_backoff:
  "reconnectDelay (createHotline opts) = 1000 \<and>
   reconnectDelay (fst (onopen cl)) = 1000 \<and>
   (o_dev (options cl) \<noteq> Some False \<and> reconnectTimer cl = None \<and> c_timers cl = [] \<and>
    \<not> intentionalClose cl \<and> reconnectDelay cl = 1000 \<longrightarrow>
      map snd (c_timers (attempts n (onclose s cl))) = [min (1000 * 2 ^ n) RECONNECT_CAP_MS]) \<and>
   (intentionalClose cl \<longrightarrow> c_timers (onclose s cl) = c_timers cl) \<and>
   length (c_timers (crun es (createHotline opts))) \<le> 1 \<and>
   c_timers (fst (disconnect (crun es (createHotline opts)))) = [] \<and>
   reconnectTimer (fst (disconnect (crun es (createHotline opts)))) = None \<and>
   intentionalClose (fst (disconnect cl))"
proof (intro conjI impI)
  show "reconnectDelay (createHotline opts) = 1000"
    by (simp add: createHotline_timers)
  show "reconnectDelay (fst (onopen cl)) = 1000"
    by (simp add: onopen_def Let_def split: option.splits)
  show "intentionalClose (fst (disconnect cl))"
    by (simp add: disconnect_def Let_def split: option.splits)
  have o: "oneTimer (crun es (createHotline opts))"
    by (rule oneTimer_crun[OF oneTimer_createHotline])
  show "length (c_timers (crun es (createHotline opts))) \<le> 1"
    by (rule oneTimer_length[OF o])
  show "c_timers (fst (disconnect (crun es (createHotline opts)))) = []"
    using oneTimer_disconnect[OF o] by simp
  show "reconnectTimer (fst (disconnect (crun es (createHotline opts)))) = None"
    using oneTimer_disconnect[OF o] by simp
next
  assume "intentionalClose cl"
  then show "c_timers (onclose s cl) = c_timers cl"
    by (simp add: onclose_def Let_def)
next
  assume h: "o_dev (options cl) \<noteq> Some False \<and> reconnectTimer cl = None \<and> c_timers cl = [] \<and>
    \<not> intentionalClose cl \<and> reconnectDelay cl = 1000"
  then have "reconnectDelay cl \<le> 30000" by simp
  from attempts_state[of cl n s, OF _ _ _ _ this] h
  show "map snd (c_timers (attempts n (onclose s cl))) = [min (1000 * 2 ^ n) RECONNECT_CAP_MS]"
    by (auto simp: RECONNECT_CAP_MS_def)
qed

theorem reconnect_backoff_witness:
  "map snd (c_timers (attempts 3 (onclose 0 (crun [Connect, OnOpen 0] (createHotline exOptions))))) = [8000] \<and>
   map snd (c_timers (attempts 5 (onclose 0 (crun [Connect, OnOpen 0] (createHotline exOptions))))) = [30000] \<and>
   c_timers (onclose 0 (fst (disconnect (crun [Connect, OnOpen 0] (createHotline exOptions))))) = []"
  using reconnect_backoff [of exOptions "crun [Connect, OnOpen 0] (createHotline exOptions)" 3 0 "[Connect, OnOpen 0]"]
        reconnect_backoff [of exOptions "crun [Connect, OnOpen 0] (createHotline exOptions)" 5 0 "[Connect, OnOpen 0]"]
        reconnect_backoff [of exOptions "fst (disconnect (crun [Connect, OnOpen 0] (createHotline exOptions)))" 0 0
                              "[Connect, OnOpen 0]"]
  by (simp add: cl_defs RECONNECT_CAP_MS_def)

subsection \<open>The ping handler of the client\<close>

lemma handlers_registerHandler:
  "map_of (handlers (registerHandler t config cl)) k =
     (if k = t then Some (hc_handler config) else map_of (handlers cl) k)"
  by (simp add: registerHandler_def Let_def update_conv' split: option.splits)

lemma handlers_cstep:
  "\<not> namesPing e \<Longrightarrow> map_of (handlers (fst (cstep e cl))) ''ping'' = map_of (handlers cl) ''ping''"
proof (cases e)
  case (Handle t config)
  assume "\<not> namesPing e"
  with Handle show ?thesis by (simp add: handle_def handlers_registerHandler)
next
  case Disconnect
  then show ?thesis by (simp add: disconnect_def Let_def split: option.splits)
next
  case (OnClose s)
  then show ?thesis by (simp add: onclose_def scheduleReconnect_def Let_def split: option.splits)
next
  case (ReconnectFire t)
  then show ?thesis by (simp add: reconnectFired_def connect_def Let_def split: option.splits)
next
  case (OnMessage s raw)
  then show ?thesis by (simp add: onmessage_def split: option.splits outcome.splits)
qed (simp_all add: connect_def onopen_def Let_def split: option.splits)

lemma handlers_cstep_present:
  "map_of (handlers cl) ''ping'' \<noteq> None \<Longrightarrow> map_of (handlers (fst (cstep e cl))) ''ping'' \<noteq> None"
proof (cases "namesPing e")
  case False
  assume "map_of (handlers cl) ''ping'' \<noteq> None"
  with handlers_cstep[OF False] show ?thesis by simp
next
  case True
  then obtain config where "e = Handle ''ping'' config" by (cases e) auto
  then show ?thesis by (simp add: handle_def handlers_registerHandler)
qed

lemma handlers_crun:
  "list_all (\<lambda>e. \<not> namesPing e) es \<Longrightarrow>
     map_of (handlers (crun es cl)) ''ping'' = map_of (handlers cl) ''ping''"
  by (induction es arbitrary: cl) (simp_all add: handlers_cstep)

lemma handlers_crun_present:
  "map_of (handlers cl) ''ping'' \<noteq> None \<Longrightarrow> map_of (handlers (crun es cl)) ''ping'' \<noteq> None"
proof (induction es arbitrary: cl)
  case Nil
  then show ?case by simp
next
  case (Cons e es)
  from Cons.IH[OF handlers_cstep_present[OF Cons.prems, of e]]
  show ?case by simp
qed

lemma createHotline_ping: "map_of (handlers (createHotline opts)) ''ping'' = Some builtinPing"
  by (simp add: createHotline_def Let_def update_conv')

text \<open>
  C8, as amended. \<open>createHotline\<close> installs the built-in \<open>ping\<close> handler after the
  handlers passed at construction, so it replaces a \<open>ping\<close> handler passed there; some
  \<open>ping\<close> handler is present after any run; \<open>handle\<close> called for \<open>ping\<close> replaces the
  built-in. After any run in which \<open>handle\<close> is never called for \<open>ping\<close> the handler is the
  built-in one, and a ping request is handled by it: its response, \<open>ok: true\<close> with empty
  data, is sent on the socket that the variable \<open>ws\<close> holds then, and nothing is sent when
  \<open>ws\<close> holds \<open>null\<close>.
\<close>

theorem builtin_ping_present:
  "map_of (handlers (createHotline opts)) ''ping'' = Some builtinPing \<and>
   (list_all (\<lambda>e. \<not> namesPing e) es \<longrightarrow>
      map_of (handlers (crun es (createHotline opts))) ''ping'' = Some builtinPing) \<and>
   map_of (handlers (crun es (createHotline opts))) ''ping'' \<noteq> None \<and>
   map_of (handlers (handle ''ping'' config cl)) ''ping'' = Some (hc_handler config) \<and>
   (list_all (\<lambda>e. \<not> namesPing e) es \<and> m_type msg = Some ''ping'' \<and> truthy (m_id msg) \<longrightarrow>
      onmessage (Some msg) (crun es (createHotline opts)) =
        (crun es (createHotline opts),
         (case c_ws (crun es (createHotline opts)) of
            None \<Rightarrow> []
          | Some w \<Rightarrow> [Sent w (CResponse \<lparr>r_id = strval (m_id msg), r_ok = True,
                                          r_data = Some (JObj []), r_error = None\<rparr>)])))"
proof (intro conjI impI)
  show "map_of (handlers (createHotline opts)) ''ping'' = Some builtinPing"
    by (rule createHotline_ping)
  show "map_of (handlers (crun es (createHotline opts))) ''ping'' \<noteq> None"
    by (rule handlers_crun_present) (simp add: createHotline_ping)
  show "map_of (handlers (handle ''ping'' config cl)) ''ping'' = Some (hc_handler config)"
    by (simp add: handle_def handlers_registerHandler)
next
  assume "list_all (\<lambda>e. \<not> namesPing e) es"
  then show "map_of (handlers (crun es (createHotline opts))) ''ping'' = Some builtinPing"
    by (simp add: handlers_crun createHotline_ping)
next
  assume h: "list_all (\<lambda>e. \<not> namesPing e) es \<and> m_type msg = Some ''ping'' \<and> truthy (m_id msg)"
  then have "map_of (handlers (crun es (createHotline opts))) ''ping'' = Some builtinPing"
    by (simp add: handlers_crun createHotline_ping)
  with h show "onmessage (Some msg) (crun es (createHotline opts)) =
        (crun es (createHotline opts),
         (case c_ws (crun es (createHotline opts)) of
            None \<Rightarrow> []
          | Some w \<Rightarrow> [Sent w (CResponse \<lparr>r_id = strval (m_id msg), r_ok = True,
                                          r_data = Some (JObj []), r_error = None\<rparr>)]))"
    by (simp add: onmessage_def wsSend_def builtinPing_def)
qed

theorem builtin_ping_present_witness:
  "onmessage (Some exPing) (crun [Handle ''get-state'' exGetState, Connect, OnOpen 0] (createHotline exOptions)) =
     (crun [Handle ''get-state'' exGetState, Connect, OnOpen 0] (createHotline exOptions),
      [Sent 0 (CResponse \<lparr>r_id = ''r5'', r_ok = True, r_data = Some (JObj []), r_error = None\<rparr>)]) \<and>
   1 \<in> set (c_socks (crun [Connect, Connect, OnClose 0] (createHotline exOptions))) \<and>
   onmessage (Some exPing) (crun [Connect, Connect, OnClose 0] (createHotline exOptions)) =
     (crun [Connect, Connect, OnClose 0] (createHotline exOptions), [])"
proof -
  let ?es = "[Handle ''get-state'' exGetState, Connect, OnOpen 0]"
  let ?fs = "[Connect, Connect, OnClose 0]"
  have h: "list_all (\<lambda>e. \<not> namesPing e) ?es" "list_all (\<lambda>e. \<not> namesPing e) ?fs"
          "m_type exPing = Some ''ping''" "truthy (m_id exPing)" "strval (m_id exPing) = ''r5''"
    by (simp_all add: exPing_def noFrame_def)
  have w: "c_ws (crun ?es (createHotline exOptions)) = Some 0"
    by (simp add: cl_defs handle_def)
  have v: "c_ws (crun ?fs (createHotline exOptions)) = None"
          "1 \<in> set (c_socks (crun ?fs (createHotline exOptions)))"
    by (simp_all add: cl_defs onclose_def scheduleReconnect_def)
  from builtin_ping_present [of exOptions ?es exGetState _ exPing]
       builtin_ping_present [of exOptions ?fs exGetState _ exPing] h w v
  show ?thesis by simp
qed

text \<open>
  C8 as stated fails: after \<open>handle\<close> is called for \<open>ping\<close>, a ping request is answered by
  the application's handler, here with its error.
\<close>

theorem builtin_ping_counterexample:
  "snd (onmessage (Some exPing) (crun [Handle ''ping'' exUserPing, Connect] (createHotline exOptions))) =
     [Sent 0 (CResponse \<lparr>r_id = ''r5'', r_ok = False, r_data = None, r_error = Some ''user ping''\<rparr>)]"
  by (simp add: cl_defs onmessage_def wsSend_def handle_def exPing_def noFrame_def)

subsection \<open>Event fan-out\<close>

lemma delivered_append: "delivered s (xs @ ys) = delivered s xs + delivered s ys"
  by (induction s xs rule: delivered.induct) auto

lemma delivered_observers:
  "s \<notin> set obs \<Longrightarrow> delivered s (map (\<lambda>ob. Deliver ob aid name d) obs) = 0"
  by (induction obs) auto

lemma delivered_hits:
  "delivered s (concat (map (\<lambda>w. [Deliver (wt_sock w) aid name d, CloseSession (wt_sock w)]) ws))
     = length (filter (\<lambda>w. wt_sock w = s) ws)"
  by (induction ws) auto

lemma filter_sock_distinct:
  assumes "distinct (map wt_sock ws)" "w \<in> set ws"
  shows "length (filter (\<lambda>w'. wt_sock w' = wt_sock w) (filter P ws)) = (if P w then 1 else 0)"
  using assms
proof (induction ws)
  case Nil
  then show ?case by simp
next
  case (Cons x ws)
  show ?case
  proof (cases "x = w")
    case True
    have "wt_sock w \<notin> wt_sock ` set ws" using Cons.prems(1) True by simp
    then have "\<forall>y \<in> set ws. wt_sock y \<noteq> wt_sock w" by (metis imageI)
    then have "filter (\<lambda>w'. wt_sock w' = wt_sock w) (filter P ws) = []"
      by (simp add: filter_empty_conv)
    with True show ?thesis by simp
  next
    case False
    with Cons.prems have mem: "w \<in> set ws" and d: "distinct (map wt_sock ws)"
      and ne: "wt_sock x \<noteq> wt_sock w" by auto
    have step: "filter (\<lambda>w'. wt_sock w' = wt_sock w) (filter P (x # ws))
                = filter (\<lambda>w'. wt_sock w' = wt_sock w) (filter P ws)"
      using ne by simp
    show ?thesis unfolding step by (rule Cons.IH[OF d mem])
  qed
qed

lemma fanOut_stranger:
  assumes "s \<notin> set (observers ss)" "s \<notin> wt_sock ` set (waiters ss)"
  shows "delivered s (snd (eventFanOut aid ev ss)) = 0"
  using assms
  by (auto simp: eventFanOut_def Let_def delivered_append delivered_observers delivered_hits
        filter_empty_conv)

lemma fanOut_waiter:
  assumes "distinct (map wt_sock (waiters ss))" "wt_sock ` set (waiters ss) \<inter> set (observers ss) = {}"
      and "w \<in> set (waiters ss)"
  shows "delivered (wt_sock w) (snd (eventFanOut aid ev ss))
           = (if waiterMatches aid (ev_event ev) w then 1 else 0)"
proof -
  have "wt_sock w \<notin> set (observers ss)" using assms(2,3) by auto
  then show ?thesis
    using filter_sock_distinct[OF assms(1,3), of "waiterMatches aid (ev_event ev)"]
    by (simp add: eventFanOut_def Let_def delivered_append delivered_observers delivered_hits)
qed

lemma fanOut_sessions:
  "observers (fst (eventFanOut aid ev ss)) = observers ss \<and>
   waiters (fst (eventFanOut aid ev ss)) = filter (\<lambda>w. \<not> waiterMatches aid (ev_event ev) w) (waiters ss)"
  by (simp add: eventFanOut_def Let_def)

lemma fanOutAll_stranger:
  assumes "s \<notin> set (observers ss)" "s \<notin> wt_sock ` set (waiters ss)"
  shows "delivered s (snd (fanOutAll evs ss)) = 0"
  using assms
proof (induction evs arbitrary: ss)
  case Nil
  then show ?case by simp
next
  case (Cons e evs)
  obtain aid ev where e: "e = (aid, ev)" by (cases e)
  let ?ss1 = "fst (eventFanOut aid ev ss)"
  have "s \<notin> set (observers ?ss1)" "s \<notin> wt_sock ` set (waiters ?ss1)"
    using Cons.prems by (auto simp: fanOut_sessions)
  from Cons.IH[OF this] fanOut_stranger[OF Cons.prems, of aid ev]
  show ?case by (simp add: e case_prod_beta Let_def delivered_append)
qed

lemma fanOutAll_once:
  assumes "distinct (map wt_sock (waiters ss))" "wt_sock ` set (waiters ss) \<inter> set (observers ss) = {}"
      and "w \<in> set (waiters ss)"
  shows "delivered (wt_sock w) (snd (fanOutAll evs ss)) \<le> 1"
  using assms
proof (induction evs arbitrary: ss)
  case Nil
  then show ?case by simp
next
  case (Cons e evs)
  obtain aid ev where e: "e = (aid, ev)" by (cases e)
  let ?ss1 = "fst (eventFanOut aid ev ss)"
  have d1: "distinct (map wt_sock (waiters ?ss1))"
    using Cons.prems(1) by (simp add: fanOut_sessions distinct_map_filter)
  have i1: "wt_sock ` set (waiters ?ss1) \<inter> set (observers ?ss1) = {}"
    using Cons.prems(2) by (auto simp: fanOut_sessions)
  have here: "delivered (wt_sock w) (snd (eventFanOut aid ev ss))
           = (if waiterMatches aid (ev_event ev) w then 1 else 0)"
    by (rule fanOut_waiter[OF Cons.prems])
  show ?case
  proof (cases "waiterMatches aid (ev_event ev) w")
    case True
    have "wt_sock w \<notin> set (observers ?ss1)" using Cons.prems(2,3) by (auto simp: fanOut_sessions)
    moreover have "wt_sock w \<notin> wt_sock ` set (waiters ?ss1)"
    proof
      assume "wt_sock w \<in> wt_sock ` set (waiters ?ss1)"
      then obtain x where x: "x \<in> set (waiters ss)" "\<not> waiterMatches aid (ev_event ev) x" "wt_sock x = wt_sock w"
        by (auto simp: fanOut_sessions)
      with Cons.prems(1,3) have "x = w" by (meson distinct_map inj_on_def)
      with x True show False by simp
    qed
    ultimately have "delivered (wt_sock w) (snd (fanOutAll evs ?ss1)) = 0"
      by (rule fanOutAll_stranger)
    with here True show ?thesis by (simp add: e case_prod_beta Let_def delivered_append)
  next
    case False
    then have "w \<in> set (waiters ?ss1)" using Cons.prems(3) by (simp add: fanOut_sessions)
    from Cons.IH[OF d1 i1 this] here False
    show ?thesis by (simp add: e case_prod_beta Let_def delivered_append)
  qed
qed

lemma fanOut_acts:
  "snd (eventFanOut aid ev ss) =
     map (\<lambda>ob. Deliver ob aid (ev_event ev) (ev_data ev)) (observers ss)
     @ concat (map (\<lambda>w. [Deliver (wt_sock w) aid (ev_event ev) (ev_data ev), CloseSession (wt_sock w)])
                 (filter (waiterMatches aid (ev_event ev)) (waiters ss)))"
  by (simp add: eventFanOut_def Let_def)

lemma fanOut_observer:
  "ob \<in> set (observers ss) \<Longrightarrow>
     Deliver ob aid (ev_event ev) (ev_data ev) \<in> set (snd (eventFanOut aid ev ss))"
  unfolding fanOut_acts by simp

lemma fanOut_hit:
  assumes "w \<in> set (waiters ss)" "waiterMatches aid (ev_event ev) w"
  shows "Deliver (wt_sock w) aid (ev_event ev) (ev_data ev) \<in> set (snd (eventFanOut aid ev ss))"
    and "CloseSession (wt_sock w) \<in> set (snd (eventFanOut aid ev ss))"
    and "w \<notin> set (waiters (fst (eventFanOut aid ev ss)))"
proof -
  have m: "w \<in> set (filter (waiterMatches aid (ev_event ev)) (waiters ss))"
    using assms by simp
  show "Deliver (wt_sock w) aid (ev_event ev) (ev_data ev) \<in> set (snd (eventFanOut aid ev ss))"
    unfolding fanOut_acts using m by force
  show "CloseSession (wt_sock w) \<in> set (snd (eventFanOut aid ev ss))"
    unfolding fanOut_acts using m by force
  show "w \<notin> set (waiters (fst (eventFanOut aid ev ss)))"
    using assms(2) by (simp add: fanOut_sessions)
qed

lemma fanOut_miss:
  assumes "w \<in> set (waiters ss)" "\<not> waiterMatches aid (ev_event ev) w"
  shows "w \<in> set (waiters (fst (eventFanOut aid ev ss)))"
  using assms by (simp add: fanOut_sessions)

text \<open>
  C5. An inbound event frame from a registered application is delivered to every connected
  observer, tagged with the originating application id, and to every waiter whose event
  name, and application id if it gave one, matches; such a waiter is closed after the
  delivery and leaves the waiter set, a waiter that does not match stays. Over any run of
  events a waiter receives at most one frame.
\<close>

theorem event_fan_out:
  "(\<forall>ob \<in> set (observers ss).
       Deliver ob aid (ev_event ev) (ev_data ev) \<in> set (snd (eventFanOut aid ev ss))) \<and>
   (\<forall>w \<in> set (waiters ss). waiterMatches aid (ev_event ev) w \<longrightarrow>
       Deliver (wt_sock w) aid (ev_event ev) (ev_data ev) \<in> set (snd (eventFanOut aid ev ss)) \<and>
       CloseSession (wt_sock w) \<in> set (snd (eventFanOut aid ev ss)) \<and>
       w \<notin> set (waiters (fst (eventFanOut aid ev ss)))) \<and>
   (\<forall>w \<in> set (waiters ss). \<not> waiterMatches aid (ev_event ev) w \<longrightarrow>
       w \<in> set (waiters (fst (eventFanOut aid ev ss)))) \<and>
   (distinct (map wt_sock (waiters ss)) \<and> wt_sock ` set (waiters ss) \<inter> set (observers ss) = {} \<longrightarrow>
       (\<forall>w \<in> set (waiters ss). delivered (wt_sock w) (snd (fanOutAll evs ss)) \<le> 1))"
proof (intro conjI ballI impI)
  fix ob assume "ob \<in> set (observers ss)"
  then show "Deliver ob aid (ev_event ev) (ev_data ev) \<in> set (snd (eventFanOut aid ev ss))"
    by (rule fanOut_observer)
next
  fix w assume w: "w \<in> set (waiters ss)" "waiterMatches aid (ev_event ev) w"
  show "Deliver (wt_sock w) aid (ev_event ev) (ev_data ev) \<in> set (snd (eventFanOut aid ev ss))"
    by (rule fanOut_hit(1)[OF w])
  show "CloseSession (wt_sock w) \<in> set (snd (eventFanOut aid ev ss))"
    by (rule fanOut_hit(2)[OF w])
  show "w \<notin> set (waiters (fst (eventFanOut aid ev ss)))"
    by (rule fanOut_hit(3)[OF w])
next
  fix w assume "w \<in> set (waiters ss)" "\<not> waiterMatches aid (ev_event ev) w"
  then show "w \<in> set (waiters (fst (eventFanOut aid ev ss)))"
    by (rule fanOut_miss)
next
  fix w
  assume d: "distinct (map wt_sock (waiters ss)) \<and> wt_sock ` set (waiters ss) \<inter> set (observers ss) = {}"
    and w: "w \<in> set (waiters ss)"
  show "delivered (wt_sock w) (snd (fanOutAll evs ss)) \<le> 1"
    by (rule fanOutAll_once[OF conjunct1[OF d] conjunct2[OF d] w])
qed

theorem event_fan_out_witness:
  "Deliver 9 ''com.a'' ''navigation'' (ev_data exEvent) \<in> set (snd (eventFanOut ''com.a'' exEvent exSessions)) \<and>
   Deliver 11 ''com.a'' ''navigation'' (ev_data exEvent) \<in> set (snd (eventFanOut ''com.a'' exEvent exSessions)) \<and>
   CloseSession 11 \<in> set (snd (eventFanOut ''com.a'' exEvent exSessions)) \<and>
   \<lparr>wt_sock = 12, wt_event = ''navigation'', wt_appId = Some ''com.b''\<rparr>
     \<in> set (waiters (fst (eventFanOut ''com.a'' exEvent exSessions))) \<and>
   delivered 11 (snd (fanOutAll [(''com.a'', exEvent), (''com.a'', exEvent)] exSessions)) \<le> 1"
  using event_fan_out [of exSessions "''com.a''" exEvent "[(''com.a'', exEvent), (''com.a'', exEvent)]"]
  by (simp add: exSessions_def exEvent_def waiterMatches_def)

end
